theory Spec2Isabelle
  imports Main
begin

section \<open>Backend: the service registry\<close>

text \<open>
  The registry collects service patches and applies them to a dependency-injection
  container. A patch names a target class (the container key, type \<open>'k\<close>) and a
  factory that wraps the original instance (type \<open>'v\<close>). Everything a collaborator
  may throw is a value of type \<open>'x\<close>; a call that throws returns \<open>Inl\<close>.
  The factory is a function of the original instance only.
\<close>

record ('k, 'v, 'x) ServicePatch =
  target :: 'k
  factory :: "'v \<Rightarrow> 'x + 'v"
  description :: "string option"
  methodsOverridden :: "string list option"

text \<open>
  The container interface: \<open>get\<close> and \<open>set\<close> over a container state \<open>'c\<close>
  the registry never inspects. Both may throw and both may change the state.
\<close>

record ('k, 'v, 'x, 'c) DIContainer =
  container_get :: "'k \<Rightarrow> 'c \<Rightarrow> ('x + 'v) \<times> 'c"
  container_set :: "'k \<Rightarrow> 'v \<Rightarrow> 'c \<Rightarrow> ('x + unit) \<times> 'c"

record ('k, 'v, 'x) MacaquesServiceRegistry =
  patches :: "('k, 'v, 'x) ServicePatch list"
  applied :: bool

text \<open>
  The lines the registry writes through the logger, by template. The error line
  carries the caught value as the string the template literal makes of it.
\<close>

datatype 'k log_line =
    InfoRegistered 'k
  | WarnAlreadyApplied
  | Patched 'k "string list option"
  | ErrorFailedToApply 'k string
  | SuccessApplied nat

text \<open>
  What a call does to the outside, in the order it happens: the calls on the
  container, the factory invocations (with the instance handed to the factory) and
  the log lines.
\<close>

datatype ('k, 'v) event =
    GetCall 'k
  | FactoryCall 'k 'v
  | SetCall 'k 'v
  | Log "'k log_line"

datatype error = Error string

definition newRegistry :: "('k, 'v, 'x) MacaquesServiceRegistry" where
  "newRegistry = \<lparr>patches = [], applied = False\<rparr>"

definition register ::
  "('k, 'v, 'x) MacaquesServiceRegistry \<Rightarrow> ('k, 'v, 'x) ServicePatch \<Rightarrow>
   (error + unit) \<times> ('k, 'v, 'x) MacaquesServiceRegistry \<times> ('k, 'v) event list" where
  "register this patch =
     (if applied this then
        (Inl (Error (''Cannot register patches after they have been applied. '' @
                     ''Make sure to register all patches before calling applyPatches().'')),
         this, [])
      else
        (Inr (), this\<lparr>patches := patches this @ [patch]\<rparr>,
         [Log (InfoRegistered (target patch))]))"

text \<open>
  The \<open>catch\<close> of \<open>applyPatches\<close>. The template literal of the error line converts the
  caught value to a string before anything is logged or thrown. The conversion is the
  parameter \<open>toString\<close>; it can throw itself (on a symbol, or through a \<open>toString\<close>
  method that throws), and then what it throws leaves the \<open>catch\<close> and nothing is
  logged. Otherwise the line is logged and the caught value is thrown again.
  \<open>thrown\<close> is the value that leaves the \<open>catch\<close>, \<open>errorLine\<close> what it logs.
\<close>

definition thrown :: "('x \<Rightarrow> 'x + string) \<Rightarrow> 'x \<Rightarrow> 'x" where
  "thrown toString e = (case toString e of Inl t \<Rightarrow> t | Inr msg \<Rightarrow> e)"

definition errorLine :: "('x \<Rightarrow> 'x + string) \<Rightarrow> 'k \<Rightarrow> 'x \<Rightarrow> ('k, 'v) event list" where
  "errorLine toString k e =
     (case toString e of Inl t \<Rightarrow> [] | Inr msg \<Rightarrow> [Log (ErrorFailedToApply k msg)])"

text \<open>One turn of the loop of \<open>applyPatches\<close>: the body of the \<open>try\<close>, and the \<open>catch\<close>.\<close>

definition applyPatch ::
  "('x \<Rightarrow> 'x + string) \<Rightarrow> ('k, 'v, 'x, 'c) DIContainer \<Rightarrow> ('k, 'v, 'x) ServicePatch \<Rightarrow> 'c \<Rightarrow>
   ('x + unit) \<times> 'c \<times> ('k, 'v) event list" where
  "applyPatch toString container patch s =
     (case container_get container (target patch) s of
        (Inl e, s1) \<Rightarrow>
          (Inl (thrown toString e), s1,
           [GetCall (target patch)] @ errorLine toString (target patch) e)
      | (Inr original, s1) \<Rightarrow>
          (case factory patch original of
             Inl e \<Rightarrow>
               (Inl (thrown toString e), s1,
                [GetCall (target patch), FactoryCall (target patch) original]
                @ errorLine toString (target patch) e)
           | Inr patched \<Rightarrow>
               (case container_set container (target patch) patched s1 of
                  (Inl e, s2) \<Rightarrow>
                    (Inl (thrown toString e), s2,
                     [GetCall (target patch), FactoryCall (target patch) original,
                      SetCall (target patch) patched]
                     @ errorLine toString (target patch) e)
                | (Inr u, s2) \<Rightarrow>
                    (Inr (), s2,
                     [GetCall (target patch), FactoryCall (target patch) original,
                      SetCall (target patch) patched,
                      Log (Patched (target patch) (methodsOverridden patch))]))))"

fun applyLoop ::
  "('x \<Rightarrow> 'x + string) \<Rightarrow> ('k, 'v, 'x, 'c) DIContainer \<Rightarrow> ('k, 'v, 'x) ServicePatch list \<Rightarrow> 'c \<Rightarrow>
   ('x + unit) \<times> 'c \<times> ('k, 'v) event list" where
  "applyLoop toString container [] s = (Inr (), s, [])"
| "applyLoop toString container (patch # rest) s =
     (case applyPatch toString container patch s of
        (Inl e, s1, evs) \<Rightarrow> (Inl e, s1, evs)
      | (Inr u, s1, evs) \<Rightarrow>
          (case applyLoop toString container rest s1 of
             (r, s2, evs') \<Rightarrow> (r, s2, evs @ evs')))"

definition applyPatches ::
  "('x \<Rightarrow> 'x + string) \<Rightarrow> ('k, 'v, 'x, 'c) DIContainer \<Rightarrow>
   ('k, 'v, 'x) MacaquesServiceRegistry \<Rightarrow> 'c \<Rightarrow>
   ('x + unit) \<times> ('k, 'v, 'x) MacaquesServiceRegistry \<times> 'c \<times> ('k, 'v) event list" where
  "applyPatches toString container this s =
     (if applied this then (Inr (), this, s, [Log WarnAlreadyApplied])
      else
        (case applyLoop toString container (patches this) s of
           (Inl e, s1, evs) \<Rightarrow> (Inl e, this, s1, evs)
         | (Inr u, s1, evs) \<Rightarrow>
             (Inr (), this\<lparr>applied := True\<rparr>, s1,
              evs @ [Log (SuccessApplied (length (patches this)))])))"

definition getPatches ::
  "('k, 'v, 'x) MacaquesServiceRegistry \<Rightarrow> ('k, 'v, 'x) ServicePatch list" where
  "getPatches this = patches this"

definition isApplied :: "('k, 'v, 'x) MacaquesServiceRegistry \<Rightarrow> bool" where
  "isApplied this = applied this"

definition reset ::
  "('k, 'v, 'x) MacaquesServiceRegistry \<Rightarrow> ('k, 'v, 'x) MacaquesServiceRegistry" where
  "reset this = this\<lparr>patches := [], applied := False\<rparr>"

subsection \<open>What the specification says a call does\<close>

text \<open>
  The specification's words for one patch: fetch the original with \<open>get\<close>, compute
  the patched instance with the factory, store it with \<open>set\<close>.
  \<open>eachPatchAppliedOnce c ps ovs s s'\<close> says that, from the container state \<open>s\<close>,
  this is done for every patch of \<open>ps\<close> in order, each step succeeding, and leaves
  \<open>s'\<close>; \<open>ovs\<close> lists, patch by patch, the original fetched and the instance stored.
  \<open>turnEvents\<close> are the events of one such patch.
\<close>

fun eachPatchAppliedOnce ::
  "('k, 'v, 'x, 'c) DIContainer \<Rightarrow> ('k, 'v, 'x) ServicePatch list \<Rightarrow> ('v \<times> 'v) list \<Rightarrow>
   'c \<Rightarrow> 'c \<Rightarrow> bool" where
  "eachPatchAppliedOnce c [] [] s s' = (s' = s)"
| "eachPatchAppliedOnce c (p # ps) (ov # ovs) s s' =
     (\<exists>s1 s2. container_get c (target p) s = (Inr (fst ov), s1)
         \<and> factory p (fst ov) = Inr (snd ov)
         \<and> container_set c (target p) (snd ov) s1 = (Inr (), s2)
         \<and> eachPatchAppliedOnce c ps ovs s2 s')"
| "eachPatchAppliedOnce c [] (ov # ovs) s s' = False"
| "eachPatchAppliedOnce c (p # ps) [] s s' = False"

definition turnEvents :: "('k, 'v, 'x) ServicePatch \<Rightarrow> 'v \<times> 'v \<Rightarrow> ('k, 'v) event list" where
  "turnEvents p ov =
     [GetCall (target p), FactoryCall (target p) (fst ov), SetCall (target p) (snd ov),
      Log (Patched (target p) (methodsOverridden p))]"

text \<open>
  \<open>turnRaises c p s e s' calls\<close>: from the state \<open>s\<close>, a step of the patch \<open>p\<close> raises
  \<open>e\<close>, be it \<open>get\<close>, the factory after a \<open>get\<close> that returned, or \<open>set\<close> after both.
  \<open>s'\<close> is the state the container is left in and \<open>calls\<close> are the calls made up to
  the one that raised.
\<close>

definition turnRaises ::
  "('k, 'v, 'x, 'c) DIContainer \<Rightarrow> ('k, 'v, 'x) ServicePatch \<Rightarrow> 'c \<Rightarrow> 'x \<Rightarrow> 'c \<Rightarrow>
   ('k, 'v) event list \<Rightarrow> bool" where
  "turnRaises c p s e s' calls =
     ((container_get c (target p) s = (Inl e, s') \<and> calls = [GetCall (target p)])
      \<or> (\<exists>original. container_get c (target p) s = (Inr original, s')
            \<and> factory p original = Inl e
            \<and> calls = [GetCall (target p), FactoryCall (target p) original])
      \<or> (\<exists>original s1 patched. container_get c (target p) s = (Inr original, s1)
            \<and> factory p original = Inr patched
            \<and> container_set c (target p) patched s1 = (Inl e, s')
            \<and> calls = [GetCall (target p), FactoryCall (target p) original,
                        SetCall (target p) patched]))"

subsection \<open>Containers and patches to run the registry on\<close>

text \<open>
  Thrown values are written as strings. \<open>jsString\<close> converts every one of them but
  the symbol, on which the conversion throws a type error.
\<close>

definition jsString :: "string \<Rightarrow> string + string" where
  "jsString e =
     (if e = ''Symbol()'' then Inl ''TypeError: Cannot convert a Symbol value to a string''
      else Inr e)"

text \<open>
  A container that keeps its instances in a map from class name to instance:
  \<open>get\<close> of a class with no instance throws, \<open>set\<close> stores. Instances are written
  as strings, so that a wrapped instance shows what wraps it.
\<close>

definition mapContainer :: "(string, string, string, string \<rightharpoonup> string) DIContainer" where
  "mapContainer =
     \<lparr>container_get =
        (\<lambda>k s. case s k of None \<Rightarrow> (Inl (''no instance of '' @ k), s) | Some v \<Rightarrow> (Inr v, s)),
      container_set = (\<lambda>k v s. (Inr (), s(k \<mapsto> v)))\<rparr>"

definition store0 :: "string \<rightharpoonup> string" where
  "store0 = [''A'' \<mapsto> ''a'', ''B'' \<mapsto> ''b'', ''C'' \<mapsto> ''c'']"

text \<open>
  A container that creates an instance on the first \<open>get\<close> of a class and keeps it,
  and whose \<open>set\<close> refuses the class \<open>C\<close>, leaving the state as it was.
\<close>

definition lazyContainer :: "(string, string, string, string \<rightharpoonup> string) DIContainer" where
  "lazyContainer =
     \<lparr>container_get =
        (\<lambda>k s. case s k of
                 None \<Rightarrow> (Inr (''new '' @ k), s(k \<mapsto> ''new '' @ k))
               | Some v \<Rightarrow> (Inr v, s)),
      container_set =
        (\<lambda>k v s. if k = ''C'' then (Inl ''C is frozen'', s) else (Inr (), s(k \<mapsto> v)))\<rparr>"

definition wrapPatch :: "string \<Rightarrow> string \<Rightarrow> (string, string, string) ServicePatch" where
  "wrapPatch k name =
     \<lparr>target = k, factory = (\<lambda>original. Inr (name @ ''('' @ original @ '')'')),
      description = None, methodsOverridden = None\<rparr>"

definition failingPatch :: "string \<Rightarrow> string \<Rightarrow> (string, string, string) ServicePatch" where
  "failingPatch k e =
     \<lparr>target = k, factory = (\<lambda>original. Inl e), description = None, methodsOverridden = None\<rparr>"

definition threePatches :: "(string, string, string) ServicePatch list" where
  "threePatches = [wrapPatch ''A'' ''P1'', failingPatch ''B'' ''boom'', wrapPatch ''C'' ''P3'']"

definition symbolPatches :: "(string, string, string) ServicePatch list" where
  "symbolPatches = [wrapPatch ''A'' ''P1'', failingPatch ''B'' ''Symbol()'', wrapPatch ''C'' ''P3'']"

definition twoPatches :: "(string, string, string) ServicePatch list" where
  "twoPatches = [wrapPatch ''A'' ''P1'', wrapPatch ''B'' ''P2'']"

definition wrapABC :: "(string, string, string) ServicePatch list" where
  "wrapABC = [wrapPatch ''A'' ''P1'', wrapPatch ''B'' ''P2'', wrapPatch ''C'' ''P3'']"

text \<open>
  A patch whose factory refuses an instance it has wrapped before: it raises when the
  original already starts with its own name and an opening bracket.
\<close>

definition guardedPatch :: "string \<Rightarrow> string \<Rightarrow> (string, string, string) ServicePatch" where
  "guardedPatch k name =
     \<lparr>target = k,
      factory = (\<lambda>original.
         if take (length name + 1) original = name @ ''('' then Inl ''already wrapped''
         else Inr (name @ ''('' @ original @ '')'')),
      description = None, methodsOverridden = None\<rparr>"

definition guardedPatches :: "(string, string, string) ServicePatch list" where
  "guardedPatches = [guardedPatch ''A'' ''P1'', wrapPatch ''B'' ''P2'', failingPatch ''C'' ''boom'']"

definition registryOf ::
  "(string, string, string) ServicePatch list \<Rightarrow> (string, string, string) MacaquesServiceRegistry" where
  "registryOf ps = \<lparr>patches = ps, applied = False\<rparr>"

fun isSetCall :: "('k, 'v) event \<Rightarrow> bool" where
  "isSetCall (SetCall k v) = True"
| "isSetCall _ = False"

fun isFactoryCall :: "('k, 'v) event \<Rightarrow> bool" where
  "isFactoryCall (FactoryCall k v) = True"
| "isFactoryCall _ = False"

subsection \<open>Reading a sequence of events\<close>

text \<open>
  \<open>held\<close> reads from a container state the instance the container holds for a class,
  if any. \<open>keepsInstances c held\<close> is what the registry's callers expect of a
  container: \<open>get\<close> returns the instance held for the class; an instance held stays
  held over a \<open>get\<close>, over a \<open>set\<close> for another class and over a \<open>set\<close> that raises;
  after a \<open>set\<close> that returns, the instance stored is the one held. A class with no
  instance held is left open: \<open>get\<close> may create one or raise.
  \<open>keeps held st hist\<close>: for every class that a \<open>set\<close> of the history was called
  on, the container holds an instance, and that instance is one a \<open>set\<close> of the history
  was called with for that class.
  \<open>fetchesStored hist evs\<close>: each factory of \<open>evs\<close> that runs for a class with an
  earlier \<open>set\<close> is handed an instance that an earlier \<open>set\<close> was called with for that
  class.
\<close>

definition keepsInstances ::
  "('k, 'v, 'x, 'c) DIContainer \<Rightarrow> ('c \<Rightarrow> 'k \<Rightarrow> 'v option) \<Rightarrow> bool" where
  "keepsInstances c held =
     ((\<forall>k st v. held st k = Some v \<longrightarrow> fst (container_get c k st) = Inr v)
      \<and> (\<forall>k k' st u. held st k' = Some u \<longrightarrow> held (snd (container_get c k st)) k' = Some u)
      \<and> (\<forall>k v st. fst (container_set c k v st) = Inr ()
            \<longrightarrow> held (snd (container_set c k v st)) k = Some v)
      \<and> (\<forall>k k' v st u.
            held st k' = Some u \<and> (k' \<noteq> k \<or> fst (container_set c k v st) \<noteq> Inr ())
            \<longrightarrow> held (snd (container_set c k v st)) k' = Some u))"

definition keeps ::
  "('c \<Rightarrow> 'k \<Rightarrow> 'v option) \<Rightarrow> 'c \<Rightarrow> ('k, 'v) event list \<Rightarrow> bool" where
  "keeps held st hist =
     (\<forall>k u. SetCall k u \<in> set hist \<longrightarrow> (\<exists>v. held st k = Some v \<and> SetCall k v \<in> set hist))"

fun fetchesStored :: "('k, 'v) event list \<Rightarrow> ('k, 'v) event list \<Rightarrow> bool" where
  "fetchesStored hist [] = True"
| "fetchesStored hist (FactoryCall k v # evs) =
     (((\<exists>u. SetCall k u \<in> set hist) \<longrightarrow> SetCall k v \<in> set hist)
      \<and> fetchesStored (hist @ [FactoryCall k v]) evs)"
| "fetchesStored hist (ev # evs) = fetchesStored (hist @ [ev]) evs"

section \<open>Shared utilities\<close>

text \<open>
  Strings are lists of characters: \<open>startsWith\<close> compares the leading characters,
  \<open>slice\<close> from an index drops them, \<open>+\<close> appends.
\<close>

definition startsWith :: "string \<Rightarrow> string \<Rightarrow> bool" where
  "startsWith s p = (take (length p) s = p)"

text \<open>
  The file system is read through \<open>existsSync\<close> only, a predicate on paths given as a
  parameter. \<open>resolve\<close> of the path library is a parameter too, a function of the list
  of its arguments. Each call of \<open>existsSync\<close> is recorded, in call order, beside the
  line the plugin logs for an override.
\<close>

datatype fs_event = ExistsSync string | LogOverride string string

definition defaultExtensions :: "string list" where
  "defaultExtensions = ['''', ''.ts'', ''.tsx'', ''.js'', ''.jsx'', ''.vue'']"

fun findFileWithExtensions ::
  "(string \<Rightarrow> bool) \<Rightarrow> string \<Rightarrow> string list \<Rightarrow> string option \<times> fs_event list" where
  "findFileWithExtensions existsSync basePath [] = (None, [])"
| "findFileWithExtensions existsSync basePath (ext # extensions) =
     (let fullPath = basePath @ ext in
      if existsSync fullPath then (Some fullPath, [ExistsSync fullPath])
      else
        (case findFileWithExtensions existsSync basePath extensions of
           (r, evs) \<Rightarrow> (r, ExistsSync fullPath # evs)))"

definition resolveAliasedPath ::
  "(string list \<Rightarrow> string) \<Rightarrow> string \<Rightarrow> string \<Rightarrow> string \<Rightarrow> string option" where
  "resolveAliasedPath resolve source aliasPrefix targetDir =
     (if \<not> startsWith source (aliasPrefix @ ''/'') then None
      else
        (let relativePath = drop (length aliasPrefix + 1) source
         in Some (resolve [targetDir, relativePath])))"

definition isPathWithin :: "(string list \<Rightarrow> string) \<Rightarrow> string \<Rightarrow> string \<Rightarrow> bool" where
  "isPathWithin resolve filePath directory =
     (let resolvedFile = resolve [filePath];
          resolvedDir = resolve [directory]
      in startsWith resolvedFile resolvedDir)"

text \<open>
  A condition on a value that is a path or null: null and the empty string are falsy.
  \<open>truthyPath\<close> gives the path when the condition holds.
\<close>

definition truthyPath :: "string option \<Rightarrow> string option" where
  "truthyPath r = (case r of None \<Rightarrow> None | Some p \<Rightarrow> if p = [] then None else Some p)"

section \<open>Frontend: the module-resolution plugin\<close>

record FrontendOptions =
  extensionsDir :: string
  n8nDir :: string
  verbose :: "bool option"
  aliasPrefix :: "string option"
  manifestPath :: "string option"

record PluginStats =
  overrides :: "string \<rightharpoonup> string"
  checked :: nat

definition newStats :: PluginStats where
  "newStats = \<lparr>overrides = Map.empty, checked = 0\<rparr>"

text \<open>The values \<open>macaquesFrontend\<close> computes from its options, with their defaults.\<close>

definition aliasPrefixOf :: "FrontendOptions \<Rightarrow> string" where
  "aliasPrefixOf options = (case aliasPrefix options of None \<Rightarrow> ''@'' | Some a \<Rightarrow> a)"

definition verboseOf :: "FrontendOptions \<Rightarrow> bool" where
  "verboseOf options = (case verbose options of None \<Rightarrow> False | Some b \<Rightarrow> b)"

definition frontendExtensionsDir :: "(string list \<Rightarrow> string) \<Rightarrow> FrontendOptions \<Rightarrow> string" where
  "frontendExtensionsDir resolve options = resolve [extensionsDir options, ''frontend'']"

definition n8nEditorUiSrc :: "(string list \<Rightarrow> string) \<Rightarrow> FrontendOptions \<Rightarrow> string" where
  "n8nEditorUiSrc resolve options =
     resolve [n8nDir options, ''packages'', ''frontend'', ''editor-ui'', ''src'']"

text \<open>
  \<open>resolveId\<close> returns the resolved path or null, the statistics as it leaves them and
  what it did outside. Its arguments \<open>importer\<close> and \<open>resolveOptions\<close> are never read.
  \<open>resolveIdBase\<close> is the part after the first block, reached when that block has
  not returned; it is given what the first block probed.
\<close>

definition resolveIdBase ::
  "(string list \<Rightarrow> string) \<Rightarrow> (string \<Rightarrow> bool) \<Rightarrow> FrontendOptions \<Rightarrow> PluginStats \<Rightarrow>
   fs_event list \<Rightarrow> string \<Rightarrow> string option \<times> PluginStats \<times> fs_event list" where
  "resolveIdBase resolve existsSync options stats evs source =
     (if startsWith source ''@n8n-base/'' then
        (let relativePath = drop (length ''@n8n-base/'') source;
             basePath = resolve [n8nEditorUiSrc resolve options, relativePath]
         in case findFileWithExtensions existsSync basePath defaultExtensions of
              (resolvedPath, probes) \<Rightarrow>
                (case truthyPath resolvedPath of
                   Some p \<Rightarrow> (Some p, stats, evs @ probes)
                 | None \<Rightarrow> (None, stats, evs @ probes)))
      else (None, stats, evs))"

definition resolveId ::
  "(string list \<Rightarrow> string) \<Rightarrow> (string \<Rightarrow> bool) \<Rightarrow> FrontendOptions \<Rightarrow> PluginStats \<Rightarrow>
   string \<Rightarrow> string option \<times> PluginStats \<times> fs_event list" where
  "resolveId resolve existsSync options stats0 source =
     (let stats = stats0\<lparr>checked := checked stats0 + 1\<rparr> in
      if startsWith source (aliasPrefixOf options @ ''/'') then
        (let relativePath = drop (length (aliasPrefixOf options) + 1) source;
             extensionPath =
               resolve [frontendExtensionsDir resolve options, aliasPrefixOf options, relativePath]
         in case findFileWithExtensions existsSync extensionPath defaultExtensions of
              (overridePath, probes) \<Rightarrow>
                (case truthyPath overridePath of
                   Some p \<Rightarrow>
                     (if overrides stats source = None then
                        (Some p, stats\<lparr>overrides := (overrides stats)(source \<mapsto> p)\<rparr>,
                         probes @ (if verboseOf options then [LogOverride source p] else []))
                      else (Some p, stats, probes))
                 | None \<Rightarrow> resolveIdBase resolve existsSync options stats probes source))
      else resolveIdBase resolve existsSync options stats [] source)"

section \<open>The validation command\<close>

datatype patch_type = Replace | Extend | ServiceExtension | NewController | Module | Hook

record PatchEntry =
  path :: string
  type :: patch_type
  description :: string
  added :: "string option"
  methodsOverridden :: "string list option"
  routePrefix :: "string option"
  moduleName :: "string option"

datatype validation_status = Ok | Missing | Changed | Failed

record ValidationResult =
  patch :: PatchEntry
  valid :: bool
  status :: validation_status
  message :: "string option"
  basePath :: "string option"

text \<open>\<open>path.replace(/^@\//, '')\<close>: a leading \<open>@/\<close> is removed.\<close>

definition stripAtSlash :: "string \<Rightarrow> string" where
  "stripAtSlash p = (if startsWith p ''@/'' then drop 2 p else p)"

definition validateFrontendPatch ::
  "(string list \<Rightarrow> string) \<Rightarrow> (string \<Rightarrow> bool) \<Rightarrow> PatchEntry \<Rightarrow> string \<Rightarrow> string \<Rightarrow>
   ValidationResult \<times> fs_event list" where
  "validateFrontendPatch resolve existsSync p extensionsDir' n8nSrc =
     (let overridePath = resolve [extensionsDir', path p] in
      case findFileWithExtensions existsSync overridePath defaultExtensions of
        (overrideFile, probes) \<Rightarrow>
          (case truthyPath overrideFile of
             None \<Rightarrow>
               (\<lparr>patch = p, valid = False, status = Missing,
                 message = Some ''Override file not found'',
                 basePath = Some overridePath\<rparr>, probes)
           | Some f \<Rightarrow>
               (let basePath' = resolve [n8nSrc, stripAtSlash (path p)] in
                case findFileWithExtensions existsSync basePath' defaultExtensions of
                  (baseFile, probes') \<Rightarrow>
                    (case truthyPath baseFile of
                       None \<Rightarrow>
                         (\<lparr>patch = p, valid = False, status = Missing,
                           message =
                             Some ''Base file not found in n8n - may have been moved or deleted'',
                           basePath = Some basePath'\<rparr>, probes @ probes')
                     | Some b \<Rightarrow>
                         (\<lparr>patch = p, valid = True, status = Ok, message = None,
                           basePath = Some b\<rparr>, probes @ probes')))))"

subsection \<open>A directory layout to run the plugin and the validator on\<close>

text \<open>
  \<open>joinPath\<close> stands for \<open>resolve\<close> where the first argument is an absolute,
  normalised directory and the others are relative, with no \<open>.\<close> or \<open>..\<close> in them:
  there \<open>resolve\<close> joins its arguments with \<open>/\<close>.
\<close>

fun joinPath :: "string list \<Rightarrow> string" where
  "joinPath [] = []"
| "joinPath [x] = x"
| "joinPath (x # xs) = x @ ''/'' @ joinPath xs"

definition defaultOptions :: FrontendOptions where
  "defaultOptions =
     \<lparr>extensionsDir = ''/repo/Macaques/extensions'', n8nDir = ''/repo/n8n'',
      verbose = None, aliasPrefix = None, manifestPath = None\<rparr>"

definition subAliasOptions :: FrontendOptions where
  "subAliasOptions = defaultOptions\<lparr>aliasPrefix := Some ''@n8n-base/app''\<rparr>"

definition fsBaseOnly :: "string \<Rightarrow> bool" where
  "fsBaseOnly p = (p = ''/repo/n8n/packages/frontend/editor-ui/src/app/Header.vue'')"

definition fsOverrideOnly :: "string \<Rightarrow> bool" where
  "fsOverrideOnly p = (p = ''/repo/Macaques/extensions/frontend/@n8n-base/app/Header.vue'')"

definition fsTsAndVue :: "string \<Rightarrow> bool" where
  "fsTsAndVue p = (p = ''/src/util.vue'' \<or> p = ''/src/util.ts'')"

definition fsEmpty :: "string \<Rightarrow> bool" where
  "fsEmpty p = False"

definition headerPatch :: PatchEntry where
  "headerPatch =
     \<lparr>path = ''@/app/Header.vue'', type = Replace, description = ''Replaces the header'',
      added = None, methodsOverridden = None, routePrefix = None, moduleName = None\<rparr>"


section \<open>Properties of the service registry\<close>

lemma store0_simps:
  "store0 ''A'' = Some ''a''" "store0 ''B'' = Some ''b''" "store0 ''C'' = Some ''c''"
  by (simp_all add: store0_def)

lemma mapContainer_simps:
  "container_get mapContainer k st =
     (case st k of None \<Rightarrow> (Inl (''no instance of '' @ k), st) | Some v \<Rightarrow> (Inr v, st))"
  "container_set mapContainer k v st = (Inr (), st(k \<mapsto> v))"
  by (simp_all add: mapContainer_def)

lemma lazyContainer_simps:
  "container_get lazyContainer k st =
     (case st k of None \<Rightarrow> (Inr (''new '' @ k), st(k \<mapsto> ''new '' @ k)) | Some v \<Rightarrow> (Inr v, st))"
  "container_set lazyContainer k v st =
     (if k = ''C'' then (Inl ''C is frozen'', st) else (Inr (), st(k \<mapsto> v)))"
  by (simp_all add: lazyContainer_def)

lemma fixture_simps:
  "target (wrapPatch k n) = k"
  "factory (wrapPatch k n) original = Inr (n @ ''('' @ original @ '')'')"
  "ServicePatch.methodsOverridden (wrapPatch k n) = None"
  "target (failingPatch k e) = k"
  "factory (failingPatch k e) original = Inl e"
  "ServicePatch.methodsOverridden (failingPatch k e) = None"
  "patches (registryOf ps) = ps"
  "applied (registryOf ps) = False"
  by (simp_all add: wrapPatch_def failingPatch_def registryOf_def)

lemma guarded_simps:
  "target (guardedPatch k n) = k"
  "factory (guardedPatch k n) original =
     (if take (length n + 1) original = n @ ''('' then Inl ''already wrapped''
      else Inr (n @ ''('' @ original @ '')''))"
  "ServicePatch.methodsOverridden (guardedPatch k n) = None"
  by (simp_all add: guardedPatch_def)

lemma jsString_simps:
  "jsString ''boom'' = Inr ''boom''"
  "jsString ''C is frozen'' = Inr ''C is frozen''"
  "jsString ''already wrapped'' = Inr ''already wrapped''"
  "jsString ''Symbol()'' = Inl ''TypeError: Cannot convert a Symbol value to a string''"
  by (simp_all add: jsString_def)

lemma thrown_simps:
  "thrown jsString ''boom'' = ''boom''"
  "thrown jsString ''C is frozen'' = ''C is frozen''"
  "thrown jsString ''already wrapped'' = ''already wrapped''"
  "thrown jsString ''Symbol()'' = ''TypeError: Cannot convert a Symbol value to a string''"
  "errorLine jsString k ''boom'' = [Log (ErrorFailedToApply k ''boom'')]"
  "errorLine jsString k ''C is frozen'' = [Log (ErrorFailedToApply k ''C is frozen'')]"
  "errorLine jsString k ''already wrapped'' = [Log (ErrorFailedToApply k ''already wrapped'')]"
  "errorLine jsString k ''Symbol()'' = []"
  by (simp_all add: thrown_def errorLine_def jsString_simps)

lemma applyPatches_success_applied:
  "applyPatches toString c this s = (Inr u, this', s', evs) \<Longrightarrow> applied this'"
  by (auto simp: applyPatches_def split: if_splits prod.splits sum.splits)

subsection \<open>A factory that raises part-way\<close>

text \<open>
  C1. A registry not yet applied holds three patches. For the first one \<open>get\<close>, the
  factory and \<open>set\<close> succeed; for the second one \<open>get\<close> succeeds and the factory
  raises \<open>e\<close>. Then \<open>applyPatches\<close> throws: \<open>e\<close>, or what the conversion of \<open>e\<close> to a
  string for the error line throws. \<open>set\<close> has been called exactly once, with the first
  patch's target and replacement, and the container is in the state that \<open>set\<close> and the
  second \<open>get\<close> left; the factories invoked are those of the first and second patch,
  never the third; \<open>isApplied\<close> is still false.
\<close>

theorem second_factory_raises:
  assumes "\<not> applied this" and "patches this = [p1, p2, p3]"
    and "container_get c (target p1) s = (Inr o1, s1)"
    and "factory p1 o1 = Inr v1"
    and "container_set c (target p1) v1 s1 = (Inr (), s2)"
    and "container_get c (target p2) s2 = (Inr o2, s3)"
    and "factory p2 o2 = Inl e"
  shows "case applyPatches toString c this s of
           (r, this', s', evs) \<Rightarrow>
             r = Inl (thrown toString e) \<and> s' = s3
             \<and> filter isSetCall evs = [SetCall (target p1) v1]
             \<and> filter isFactoryCall evs = [FactoryCall (target p1) o1, FactoryCall (target p2) o2]
             \<and> \<not> isApplied this'"
  using assms
  by (simp add: applyPatches_def applyPatch_def thrown_def isApplied_def errorLine_def
        split: sum.splits)

text \<open>
  The same on the map container: the second of three patches raises \<open>boom\<close>. The
  container holds the first patch's wrapper for \<open>A\<close>, and the originals of \<open>B\<close> and
  \<open>C\<close>.
\<close>

theorem second_factory_raises_witness:
  "case applyPatches jsString mapContainer (registryOf threePatches) store0 of
     (r, this', s', evs) \<Rightarrow>
       r = Inl ''boom'' \<and> s' ''A'' = Some ''P1(a)'' \<and> s' ''B'' = Some ''b'' \<and> s' ''C'' = Some ''c''
       \<and> filter isSetCall evs = [SetCall ''A'' ''P1(a)'']
       \<and> filter isFactoryCall evs = [FactoryCall ''A'' ''a'', FactoryCall ''B'' ''b'']
       \<and> \<not> isApplied this'"
proof -
  have h1: "\<not> applied (registryOf threePatches)" by (simp add: fixture_simps)
  have h2: "patches (registryOf threePatches)
              = [wrapPatch ''A'' ''P1'', failingPatch ''B'' ''boom'', wrapPatch ''C'' ''P3'']"
    by (simp add: fixture_simps threePatches_def)
  have h3: "container_get mapContainer (target (wrapPatch ''A'' ''P1'')) store0 = (Inr ''a'', store0)"
    by (simp add: fixture_simps mapContainer_simps store0_simps)
  have h4: "factory (wrapPatch ''A'' ''P1'') ''a'' = Inr ''P1(a)''" by (simp add: fixture_simps)
  have h5: "container_set mapContainer (target (wrapPatch ''A'' ''P1'')) ''P1(a)'' store0
              = (Inr (), store0(''A'' \<mapsto> ''P1(a)''))"
    by (simp add: fixture_simps mapContainer_simps)
  have h6: "container_get mapContainer (target (failingPatch ''B'' ''boom'')) (store0(''A'' \<mapsto> ''P1(a)''))
              = (Inr ''b'', store0(''A'' \<mapsto> ''P1(a)''))"
    by (simp add: fixture_simps mapContainer_simps store0_simps)
  have h7: "factory (failingPatch ''B'' ''boom'') ''b'' = Inl ''boom''" by (simp add: fixture_simps)
  from second_factory_raises[OF h1 h2 h3 h4 h5 h6 h7, of jsString]
  show ?thesis by (auto simp: fixture_simps store0_simps thrown_simps split: prod.splits)
qed

subsection \<open>The loop, patch by patch\<close>

lemma eachPatchAppliedOnce_length:
  "eachPatchAppliedOnce c ps ovs s s' \<Longrightarrow> length ovs = length ps"
  by (induction c ps ovs s s' rule: eachPatchAppliedOnce.induct) auto

lemma once_applyLoop:
  "eachPatchAppliedOnce c ps ovs s s' \<Longrightarrow>
   applyLoop toString c ps s = (Inr (), s', concat (map2 turnEvents ps ovs))"
proof (induction c ps ovs s s' rule: eachPatchAppliedOnce.induct)
  case (1 c s s')
  then show ?case by simp
next
  case (2 c p ps ov ovs s s')
  from "2.prems" obtain s1 s2 where
    g: "container_get c (target p) s = (Inr (fst ov), s1)"
    and f: "factory p (fst ov) = Inr (snd ov)"
    and st: "container_set c (target p) (snd ov) s1 = (Inr (), s2)"
    and rest: "eachPatchAppliedOnce c ps ovs s2 s'" by auto
  from g f st have "applyPatch toString c p s = (Inr (), s2, turnEvents p ov)"
    by (simp add: applyPatch_def turnEvents_def)
  with "2.IH"[OF rest] show ?case by simp
next
  case (3 c ov ovs s s')
  then show ?case by simp
next
  case (4 c p ps s s')
  then show ?case by simp
qed

lemma applyPatch_success:
  "applyPatch toString c p s = (Inr u, s', evs) \<Longrightarrow>
   \<exists>ov s1. container_get c (target p) s = (Inr (fst ov), s1)
         \<and> factory p (fst ov) = Inr (snd ov)
         \<and> container_set c (target p) (snd ov) s1 = (Inr (), s')
         \<and> evs = turnEvents p ov"
  by (auto simp: applyPatch_def turnEvents_def split: prod.splits sum.splits)

lemma applyLoop_once:
  "applyLoop toString c ps s = (Inr (), s', evs) \<Longrightarrow>
   \<exists>ovs. eachPatchAppliedOnce c ps ovs s s' \<and> evs = concat (map2 turnEvents ps ovs)"
proof (induction ps arbitrary: s s' evs)
  case Nil
  then have "eachPatchAppliedOnce c [] [] s s' \<and> evs = concat (map2 turnEvents [] [])" by simp
  then show ?case by blast
next
  case (Cons p ps)
  obtain r1 s1 evs1 where step: "applyPatch toString c p s = (r1, s1, evs1)"
    by (cases "applyPatch toString c p s") auto
  obtain r2 s2 evs2 where rest: "applyLoop toString c ps s1 = (r2, s2, evs2)"
    by (cases "applyLoop toString c ps s1") auto
  from Cons.prems step rest have r1: "r1 = Inr ()" and r2: "r2 = Inr ()"
    and s2: "s2 = s'" and evs: "evs = evs1 @ evs2"
    by (auto split: sum.splits)
  from step r1 have "applyPatch toString c p s = (Inr (), s1, evs1)" by simp
  from applyPatch_success[OF this] obtain ov m where
    t: "container_get c (target p) s = (Inr (fst ov), m)" "factory p (fst ov) = Inr (snd ov)"
       "container_set c (target p) (snd ov) m = (Inr (), s1)" "evs1 = turnEvents p ov" by blast
  from rest r2 s2 have "applyLoop toString c ps s1 = (Inr (), s', evs2)" by simp
  from Cons.IH[OF this] obtain ovs where
    IH: "eachPatchAppliedOnce c ps ovs s1 s'" "evs2 = concat (map2 turnEvents ps ovs)" by blast
  from t IH evs have "eachPatchAppliedOnce c (p # ps) (ov # ovs) s s'
      \<and> evs = concat (map2 turnEvents (p # ps) (ov # ovs))" by auto
  then show ?case by blast
qed

lemma turnRaises_applyPatch:
  assumes "turnRaises c p s e s' calls"
  shows "applyPatch toString c p s =
           (Inl (thrown toString e), s', calls @ errorLine toString (target p) e)"
  using assms
  by (auto simp: turnRaises_def applyPatch_def)

lemma applyLoop_append:
  "applyLoop toString c (xs @ ys) s =
     (case applyLoop toString c xs s of
        (Inl e, s1, evs) \<Rightarrow> (Inl e, s1, evs)
      | (Inr u, s1, evs) \<Rightarrow>
          (case applyLoop toString c ys s1 of (r, s2, evs') \<Rightarrow> (r, s2, evs @ evs')))"
proof (induction xs arbitrary: s)
  case Nil
  show ?case by (cases "applyLoop toString c ys s") simp
next
  case (Cons x xs)
  obtain r1 s1 evs1 where step: "applyPatch toString c x s = (r1, s1, evs1)"
    by (cases "applyPatch toString c x s") auto
  show ?case
  proof (cases r1)
    case (Inl e)
    with step show ?thesis by simp
  next
    case (Inr u)
    obtain r2 s2 evs2 where xs: "applyLoop toString c xs s1 = (r2, s2, evs2)"
      by (cases "applyLoop toString c xs s1") auto
    show ?thesis
    proof (cases r2)
      case (Inl e)
      with step Inr xs Cons.IH[of s1] show ?thesis by simp
    next
      case r2: (Inr u2)
      obtain r3 s3 evs3 where ys: "applyLoop toString c ys s2 = (r3, s3, evs3)"
        by (cases "applyLoop toString c ys s2") auto
      with step Inr xs r2 Cons.IH[of s1] show ?thesis by simp
    qed
  qed
qed

lemma applyLoop_stops:
  assumes "eachPatchAppliedOnce c before ovs s st"
      and "turnRaises c p st e st' calls"
  shows "applyLoop toString c (before @ p # after) s =
           (Inl (thrown toString e), st',
            concat (map2 turnEvents before ovs) @ calls @ errorLine toString (target p) e)"
  using once_applyLoop[OF assms(1), of toString] turnRaises_applyPatch[OF assms(2), of toString]
  by (simp add: applyLoop_append)

text \<open>
  Every run of the loop has this shape: it gets through the first so many patches, and
  then either none is left or a step of the next one raises.
\<close>

lemma applyLoop_shapeI:
  "ps = redone @ rest \<Longrightarrow> eachPatchAppliedOnce c redone wvs s st \<Longrightarrow>
   rest = [] \<or> (\<exists>e st' calls. turnRaises c (hd rest) st e st' calls) \<Longrightarrow>
   \<exists>redone rest wvs st.
     ps = redone @ rest \<and> eachPatchAppliedOnce c redone wvs s st
     \<and> (rest = [] \<or> (\<exists>e st' calls. turnRaises c (hd rest) st e st' calls))"
  by (intro exI conjI)

lemma applyLoop_shape:
  "\<exists>redone rest wvs st.
     ps = redone @ rest \<and> eachPatchAppliedOnce c redone wvs s st
     \<and> (rest = [] \<or> (\<exists>e st' calls. turnRaises c (hd rest) st e st' calls))"
proof (induction ps arbitrary: s)
  case Nil
  have a: "[] = [] @ ([] :: ('a, 'b, 'c) ServicePatch list)" by simp
  have b: "eachPatchAppliedOnce c [] [] s s" by simp
  show ?case by (rule applyLoop_shapeI[OF a b]) simp
next
  case (Cons p ps)
  have stop: ?case if r: "turnRaises c p s e st' calls" for e st' calls
  proof -
    have a: "p # ps = [] @ (p # ps)" by simp
    have b: "eachPatchAppliedOnce c [] [] s s" by simp
    from r have d: "p # ps = [] \<or> (\<exists>e st' calls. turnRaises c (hd (p # ps)) s e st' calls)"
      unfolding list.sel by (intro disjI2 exI)
    show ?thesis by (rule applyLoop_shapeI[OF a b d])
  qed
  obtain r s1 where g: "container_get c (target p) s = (r, s1)"
    by (cases "container_get c (target p) s") auto
  show ?case
  proof (cases r)
    case (Inl e)
    with g have "turnRaises c p s e s1 [GetCall (target p)]" by (simp add: turnRaises_def)
    then show ?thesis by (rule stop)
  next
    case (Inr original)
    note got = g[unfolded Inr]
    show ?thesis
    proof (cases "factory p original")
      case (Inl e)
      with got have "turnRaises c p s e s1 [GetCall (target p), FactoryCall (target p) original]"
        by (simp add: turnRaises_def)
      then show ?thesis by (rule stop)
    next
      case made: (Inr patched)
      obtain r2 s2 where st: "container_set c (target p) patched s1 = (r2, s2)"
        by (cases "container_set c (target p) patched s1") auto
      show ?thesis
      proof (cases r2)
        case (Inl e)
        with got made st
        have "turnRaises c p s e s2
                [GetCall (target p), FactoryCall (target p) original, SetCall (target p) patched]"
          by (simp add: turnRaises_def)
        then show ?thesis by (rule stop)
      next
        case (Inr u)
        from Cons.IH[of s2] obtain redone rest wvs st' where
          ih: "ps = redone @ rest" "eachPatchAppliedOnce c redone wvs s2 st'"
              "rest = [] \<or> (\<exists>e st'' calls. turnRaises c (hd rest) st' e st'' calls)"
          by (elim exE conjE)
        from ih(1) have a: "p # ps = (p # redone) @ rest" by simp
        from got made st Inr ih(2)
        have b: "eachPatchAppliedOnce c (p # redone) ((original, patched) # wvs) s st'" by simp
        show ?thesis by (rule applyLoop_shapeI[OF a b ih(3)])
      qed
    qed
  qed
qed

lemma apply_one:
  "applyPatches jsString mapContainer (registryOf [wrapPatch ''A'' ''P1'']) store0 =
     (Inr (), (registryOf [wrapPatch ''A'' ''P1''])\<lparr>applied := True\<rparr>, store0(''A'' \<mapsto> ''P1(a)''),
      [GetCall ''A'', FactoryCall ''A'' ''a'', SetCall ''A'' ''P1(a)'', Log (Patched ''A'' None),
       Log (SuccessApplied 1)])"
  by (simp add: applyPatches_def applyPatch_def fixture_simps mapContainer_simps store0_simps)

lemma apply_three:
  "applyPatches jsString mapContainer (registryOf threePatches) store0 =
     (Inl ''boom'', registryOf threePatches, store0(''A'' \<mapsto> ''P1(a)''),
      [GetCall ''A'', FactoryCall ''A'' ''a'', SetCall ''A'' ''P1(a)'', Log (Patched ''A'' None),
       GetCall ''B'', FactoryCall ''B'' ''b'', Log (ErrorFailedToApply ''B'' ''boom'')])"
  by (simp add: applyPatches_def applyPatch_def threePatches_def fixture_simps
        mapContainer_simps store0_simps thrown_simps)

lemma two_once:
  "eachPatchAppliedOnce mapContainer twoPatches [(''a'', ''P1(a)''), (''b'', ''P2(b)'')]
     store0 (store0(''A'' \<mapsto> ''P1(a)'', ''B'' \<mapsto> ''P2(b)''))"
  by (simp add: twoPatches_def fixture_simps mapContainer_simps store0_simps)

lemma one_once:
  "eachPatchAppliedOnce mapContainer [wrapPatch ''A'' ''P1''] [(''a'', ''P1(a)'')]
     store0 (store0(''A'' \<mapsto> ''P1(a)''))"
  by (simp add: fixture_simps mapContainer_simps store0_simps)

subsection \<open>Registering after the patches are applied\<close>

text \<open>
  C2. In every registry state with \<open>applied\<close> true, \<open>register\<close> throws its error and
  leaves the registry, and so the patch list, as it was; nothing is logged as
  registered.
\<close>

theorem register_after_apply_fails:
  assumes "applied this"
  shows "register this p =
     (Inl (Error (''Cannot register patches after they have been applied. '' @
                  ''Make sure to register all patches before calling applyPatches().'')),
      this, [])"
  using assms by (simp add: register_def)

text \<open>
  A registry that a successful \<open>applyPatches\<close> has left refuses a further patch and
  still lists the one patch it had.
\<close>

theorem register_after_apply_fails_witness:
  "case applyPatches jsString mapContainer (registryOf [wrapPatch ''A'' ''P1'']) store0 of
     (r, this', s', evs) \<Rightarrow>
       r = Inr () \<and> applied this'
       \<and> register this' (wrapPatch ''B'' ''P2'') =
           (Inl (Error (''Cannot register patches after they have been applied. '' @
                        ''Make sure to register all patches before calling applyPatches().'')),
            this', [])
       \<and> map target (getPatches this') = [''A'']"
proof -
  have h: "applied ((registryOf [wrapPatch ''A'' ''P1''])\<lparr>applied := True\<rparr>)" by simp
  from register_after_apply_fails[OF h, of "wrapPatch ''B'' ''P2''"]
  show ?thesis by (simp add: apply_one getPatches_def fixture_simps)
qed

subsection \<open>Applying once\<close>

text \<open>
  C3. On a registry not yet applied, when for every patch in registration order \<open>get\<close>,
  the factory and \<open>set\<close> succeed, \<open>applyPatches\<close> returns without throwing, sets
  \<open>applied\<close>, leaves the container in the state the last \<open>set\<close> left, and has made, for
  each patch in order, one \<open>get\<close>, one call of the factory on what \<open>get\<close> returned and
  one \<open>set\<close> of what the factory returned, and nothing else but the log lines.
  Conversely, a call that returns without throwing on a registry not yet applied has
  done exactly that. When \<open>applyPatches\<close> has returned without throwing, a second call
  on the registry and container it left returns without throwing, changes neither, and
  does nothing but log a warning: no \<open>get\<close>, no factory, no \<open>set\<close>. On an empty patch
  list \<open>applyPatches\<close> succeeds, leaves \<open>applied\<close> true and the container as it was,
  and, when the registry was not yet applied, reports zero patches.
\<close>

theorem apply_exactly_once:
  "(\<not> applied this \<and> eachPatchAppliedOnce c (patches this) ovs s s' \<longrightarrow>
      applyPatches toString c this s =
        (Inr (), this\<lparr>applied := True\<rparr>, s',
         concat (map2 turnEvents (patches this) ovs) @ [Log (SuccessApplied (length (patches this)))]))
   \<and> (\<not> applied this \<and> applyPatches toString c this s = (Inr (), this', s', evs) \<longrightarrow>
        this' = this\<lparr>applied := True\<rparr>
        \<and> (\<exists>ovs. eachPatchAppliedOnce c (patches this) ovs s s'
              \<and> evs = concat (map2 turnEvents (patches this) ovs)
                      @ [Log (SuccessApplied (length (patches this)))]))
   \<and> (applyPatches toString c this s = (Inr (), this', s', evs) \<longrightarrow>
        applyPatches toString c this' s' = (Inr (), this', s', [Log WarnAlreadyApplied]))
   \<and> (patches this = [] \<longrightarrow>
        (case applyPatches toString c this s of
           (r, this', s', evs) \<Rightarrow>
             r = Inr () \<and> applied this' \<and> patches this' = [] \<and> s' = s
             \<and> (\<not> applied this \<longrightarrow> evs = [Log (SuccessApplied 0)])))"
proof -
  have forward: "applyPatches toString c this s =
        (Inr (), this\<lparr>applied := True\<rparr>, s',
         concat (map2 turnEvents (patches this) ovs) @ [Log (SuccessApplied (length (patches this)))])"
    if a: "\<not> applied this \<and> eachPatchAppliedOnce c (patches this) ovs s s'"
  proof -
    from a have "applyLoop toString c (patches this) s
               = (Inr (), s', concat (map2 turnEvents (patches this) ovs))"
      by (simp add: once_applyLoop)
    with a show ?thesis by (simp add: applyPatches_def)
  qed
  have backward: "this' = this\<lparr>applied := True\<rparr>
        \<and> (\<exists>ovs. eachPatchAppliedOnce c (patches this) ovs s s'
              \<and> evs = concat (map2 turnEvents (patches this) ovs)
                      @ [Log (SuccessApplied (length (patches this)))])"
    if a: "\<not> applied this \<and> applyPatches toString c this s = (Inr (), this', s', evs)"
  proof -
    from a obtain evs0 where loop: "applyLoop toString c (patches this) s = (Inr (), s', evs0)"
      and evs: "evs = evs0 @ [Log (SuccessApplied (length (patches this)))]"
      and this': "this' = this\<lparr>applied := True\<rparr>"
      by (auto simp: applyPatches_def split: prod.splits sum.splits)
    from applyLoop_once[OF loop] obtain ovs' where
      "eachPatchAppliedOnce c (patches this) ovs' s s'"
      "evs0 = concat (map2 turnEvents (patches this) ovs')"
      by blast
    with evs this' show ?thesis by blast
  qed
  have again: "applyPatches toString c this' s' = (Inr (), this', s', [Log WarnAlreadyApplied])"
    if "applyPatches toString c this s = (Inr (), this', s', evs)"
  proof -
    from that have "applied this'" by (rule applyPatches_success_applied)
    then show ?thesis by (simp add: applyPatches_def)
  qed
  have empty: "case applyPatches toString c this s of
           (r, this', s', evs) \<Rightarrow>
             r = Inr () \<and> applied this' \<and> patches this' = [] \<and> s' = s
             \<and> (\<not> applied this \<longrightarrow> evs = [Log (SuccessApplied 0)])"
    if "patches this = []"
    using that by (simp add: applyPatches_def)
  from forward backward again empty show ?thesis by blast
qed

text \<open>
  Two patches are applied to the map container, one \<open>get\<close>, factory and \<open>set\<close> each;
  the second call leaves the wrappers in place and only warns. An empty registry is
  applied with zero patches.
\<close>

theorem apply_exactly_once_witness:
  "eachPatchAppliedOnce mapContainer twoPatches [(''a'', ''P1(a)''), (''b'', ''P2(b)'')]
     store0 (store0(''A'' \<mapsto> ''P1(a)'', ''B'' \<mapsto> ''P2(b)''))
   \<and> applyPatches jsString mapContainer (registryOf twoPatches) store0 =
       (Inr (), (registryOf twoPatches)\<lparr>applied := True\<rparr>,
        store0(''A'' \<mapsto> ''P1(a)'', ''B'' \<mapsto> ''P2(b)''),
        [GetCall ''A'', FactoryCall ''A'' ''a'', SetCall ''A'' ''P1(a)'', Log (Patched ''A'' None),
         GetCall ''B'', FactoryCall ''B'' ''b'', SetCall ''B'' ''P2(b)'', Log (Patched ''B'' None),
         Log (SuccessApplied 2)])
   \<and> applyPatches jsString mapContainer ((registryOf twoPatches)\<lparr>applied := True\<rparr>)
         (store0(''A'' \<mapsto> ''P1(a)'', ''B'' \<mapsto> ''P2(b)'')) =
       (Inr (), (registryOf twoPatches)\<lparr>applied := True\<rparr>,
        store0(''A'' \<mapsto> ''P1(a)'', ''B'' \<mapsto> ''P2(b)''), [Log WarnAlreadyApplied])
   \<and> (case applyPatches jsString mapContainer (registryOf []) store0 of
         (r, this', s', evs) \<Rightarrow>
           r = Inr () \<and> applied this' \<and> s' = store0 \<and> evs = [Log (SuccessApplied 0)])"
proof -
  have fresh: "\<not> applied (registryOf twoPatches)" by (simp add: fixture_simps)
  have ps: "patches (registryOf twoPatches) = twoPatches" by (simp add: fixture_simps)
  note t = apply_exactly_once[where this = "registryOf twoPatches" and c = mapContainer
             and ovs = "[(''a'', ''P1(a)''), (''b'', ''P2(b)'')]" and s = store0
             and s' = "store0(''A'' \<mapsto> ''P1(a)'', ''B'' \<mapsto> ''P2(b)'')" and toString = jsString
             and this' = "(registryOf twoPatches)\<lparr>applied := True\<rparr>"
             and evs = "concat (map2 turnEvents twoPatches [(''a'', ''P1(a)''), (''b'', ''P2(b)'')])
                        @ [Log (SuccessApplied (length twoPatches))]",
             unfolded ps]
  from t[THEN conjunct1, THEN mp, OF conjI[OF fresh two_once]]
  have first: "applyPatches jsString mapContainer (registryOf twoPatches) store0 =
       (Inr (), (registryOf twoPatches)\<lparr>applied := True\<rparr>,
        store0(''A'' \<mapsto> ''P1(a)'', ''B'' \<mapsto> ''P2(b)''),
        concat (map2 turnEvents twoPatches [(''a'', ''P1(a)''), (''b'', ''P2(b)'')])
        @ [Log (SuccessApplied (length twoPatches))])" .
  from t[THEN conjunct2, THEN conjunct2, THEN conjunct1, THEN mp, OF first]
  have again: "applyPatches jsString mapContainer ((registryOf twoPatches)\<lparr>applied := True\<rparr>)
         (store0(''A'' \<mapsto> ''P1(a)'', ''B'' \<mapsto> ''P2(b)'')) =
       (Inr (), (registryOf twoPatches)\<lparr>applied := True\<rparr>,
        store0(''A'' \<mapsto> ''P1(a)'', ''B'' \<mapsto> ''P2(b)''), [Log WarnAlreadyApplied])" .
  have none: "patches (registryOf []) = []" and unapplied: "\<not> applied (registryOf [])"
    by (simp_all add: fixture_simps)
  from apply_exactly_once[where this = "registryOf []" and c = mapContainer and s = store0
         and toString = jsString, THEN conjunct2, THEN conjunct2, THEN conjunct2, THEN mp, OF none]
    unapplied
  have empty: "case applyPatches jsString mapContainer (registryOf []) store0 of
         (r, this', s', evs) \<Rightarrow>
           r = Inr () \<and> applied this' \<and> s' = store0 \<and> evs = [Log (SuccessApplied 0)]"
    by (auto split: prod.splits)
  have evs: "concat (map2 turnEvents twoPatches [(''a'', ''P1(a)''), (''b'', ''P2(b)'')])
             @ [Log (SuccessApplied (length twoPatches))]
           = [GetCall ''A'', FactoryCall ''A'' ''a'', SetCall ''A'' ''P1(a)'', Log (Patched ''A'' None),
              GetCall ''B'', FactoryCall ''B'' ''b'', SetCall ''B'' ''P2(b)'', Log (Patched ''B'' None),
              Log (SuccessApplied 2)]"
    by (simp add: twoPatches_def turnEvents_def fixture_simps)
  from first[unfolded evs] again empty two_once show ?thesis by simp
qed

subsection \<open>What a failed application throws\<close>

text \<open>
  Against C4 as worded. The second of three patches has a factory that raises the
  value \<open>boom\<close> on the instance \<open>b\<close> that \<open>get\<close> returns for it. What
  \<open>applyPatches\<close> throws is that very value: nothing wraps it, and nothing in it
  names the target.
\<close>

theorem wrapped_exception_counterexample:
  "container_get mapContainer ''B'' (store0(''A'' \<mapsto> ''P1(a)'')) = (Inr ''b'', store0(''A'' \<mapsto> ''P1(a)''))
   \<and> factory (failingPatch ''B'' ''boom'') ''b'' = Inl ''boom''
   \<and> fst (applyPatches jsString mapContainer (registryOf threePatches) store0) = Inl ''boom''"
  by (simp add: apply_three fixture_simps mapContainer_simps store0_simps)

text \<open>
  C4, as the code has it. A registry not yet applied holds the patches \<open>before\<close>, then
  \<open>p\<close>, then \<open>after\<close>; the patches \<open>before\<close> are applied, and a step of \<open>p\<close> raises
  \<open>e\<close>: \<open>get\<close>, the factory or \<open>set\<close>. When \<open>e\<close> converts to a string,
  \<open>applyPatches\<close> logs the error line, which names the target of \<open>p\<close> and carries that
  string, and throws \<open>e\<close> itself: the target is named in the line logged, not in what is
  thrown. When the conversion throws, \<open>applyPatches\<close> throws what the conversion threw
  and logs no error line. Either way the registry is returned as it was, the container
  is in the state the raising step left, and no step of a later patch is run.
\<close>

theorem failure_rethrown_unchanged:
  assumes "\<not> applied this"
      and "patches this = before @ p # after"
      and "eachPatchAppliedOnce c before ovs s st"
      and "turnRaises c p st e st' calls"
  shows "applyPatches toString c this s =
           (case toString e of
              Inr msg \<Rightarrow>
                (Inl e, this, st',
                 concat (map2 turnEvents before ovs) @ calls @ [Log (ErrorFailedToApply (target p) msg)])
            | Inl t \<Rightarrow>
                (Inl t, this, st', concat (map2 turnEvents before ovs) @ calls))"
  using assms(1,2) applyLoop_stops[OF assms(3,4), of toString after]
  by (simp add: applyPatches_def thrown_def errorLine_def split: sum.splits)

text \<open>
  The three patches on the map container: the factory of the second raises \<open>boom\<close>,
  which is logged for \<open>B\<close> and thrown. With a factory that raises a symbol, the type
  error of the conversion is thrown and no line is logged.
\<close>

theorem failure_rethrown_unchanged_witness:
  "applyPatches jsString mapContainer (registryOf threePatches) store0 =
     (Inl ''boom'', registryOf threePatches, store0(''A'' \<mapsto> ''P1(a)''),
      [GetCall ''A'', FactoryCall ''A'' ''a'', SetCall ''A'' ''P1(a)'', Log (Patched ''A'' None),
       GetCall ''B'', FactoryCall ''B'' ''b'', Log (ErrorFailedToApply ''B'' ''boom'')])
   \<and> applyPatches jsString mapContainer (registryOf symbolPatches) store0 =
     (Inl ''TypeError: Cannot convert a Symbol value to a string'', registryOf symbolPatches,
      store0(''A'' \<mapsto> ''P1(a)''),
      [GetCall ''A'', FactoryCall ''A'' ''a'', SetCall ''A'' ''P1(a)'', Log (Patched ''A'' None),
       GetCall ''B'', FactoryCall ''B'' ''b''])"
proof -
  have fresh: "\<not> applied (registryOf ps)" for ps by (simp add: fixture_simps)
  have split3: "patches (registryOf threePatches)
                  = [wrapPatch ''A'' ''P1''] @ failingPatch ''B'' ''boom'' # [wrapPatch ''C'' ''P3'']"
    by (simp add: fixture_simps threePatches_def)
  have splitS: "patches (registryOf symbolPatches)
                  = [wrapPatch ''A'' ''P1''] @ failingPatch ''B'' ''Symbol()'' # [wrapPatch ''C'' ''P3'']"
    by (simp add: fixture_simps symbolPatches_def)
  have raises: "turnRaises mapContainer (failingPatch ''B'' e) (store0(''A'' \<mapsto> ''P1(a)'')) e
                  (store0(''A'' \<mapsto> ''P1(a)'')) [GetCall ''B'', FactoryCall ''B'' ''b'']" for e
    by (simp add: turnRaises_def fixture_simps mapContainer_simps store0_simps)
  from failure_rethrown_unchanged[OF fresh split3 one_once raises, of jsString]
  have a: "applyPatches jsString mapContainer (registryOf threePatches) store0 =
     (Inl ''boom'', registryOf threePatches, store0(''A'' \<mapsto> ''P1(a)''),
      [GetCall ''A'', FactoryCall ''A'' ''a'', SetCall ''A'' ''P1(a)'', Log (Patched ''A'' None),
       GetCall ''B'', FactoryCall ''B'' ''b'', Log (ErrorFailedToApply ''B'' ''boom'')])"
    by (simp add: jsString_simps turnEvents_def fixture_simps)
  from failure_rethrown_unchanged[OF fresh splitS one_once raises, of jsString]
  have b: "applyPatches jsString mapContainer (registryOf symbolPatches) store0 =
     (Inl ''TypeError: Cannot convert a Symbol value to a string'', registryOf symbolPatches,
      store0(''A'' \<mapsto> ''P1(a)''),
      [GetCall ''A'', FactoryCall ''A'' ''a'', SetCall ''A'' ''P1(a)'', Log (Patched ''A'' None),
       GetCall ''B'', FactoryCall ''B'' ''b''])"
    by (simp add: jsString_simps turnEvents_def fixture_simps)
  from a b show ?thesis ..
qed

subsection \<open>Applying again after a failure\<close>

lemma fetchesStored_append:
  "fetchesStored hist (a @ b) = (fetchesStored hist a \<and> fetchesStored (hist @ a) b)"
  by (induction hist a rule: fetchesStored.induct) auto

lemma fetchesStored_split:
  "fetchesStored hist evs \<Longrightarrow> evs = pre @ FactoryCall k v # post \<Longrightarrow>
   SetCall k u \<in> set (hist @ pre) \<Longrightarrow> SetCall k v \<in> set (hist @ pre)"
  by (auto simp: fetchesStored_append)

lemma contract_get:
  "keepsInstances c held \<Longrightarrow> held st k = Some v \<Longrightarrow> fst (container_get c k st) = Inr v"
  by (simp add: keepsInstances_def)

lemma contract_get_keeps:
  "keepsInstances c held \<Longrightarrow> held st k' = Some u \<Longrightarrow> container_get c k st = (r, st') \<Longrightarrow>
   held st' k' = Some u"
  unfolding keepsInstances_def by (metis snd_conv)

lemma contract_set_stores:
  "keepsInstances c held \<Longrightarrow> container_set c k v st = (Inr (), st') \<Longrightarrow> held st' k = Some v"
  unfolding keepsInstances_def by (metis fst_conv snd_conv)

lemma contract_set_other:
  "keepsInstances c held \<Longrightarrow> held st k' = Some u \<Longrightarrow> k' \<noteq> k \<Longrightarrow>
   container_set c k v st = (r, st') \<Longrightarrow> held st' k' = Some u"
  unfolding keepsInstances_def by (metis snd_conv)

lemma contract_set_raises:
  "keepsInstances c held \<Longrightarrow> held st k' = Some u \<Longrightarrow>
   container_set c k v st = (Inl e, st') \<Longrightarrow> held st' k' = Some u"
  unfolding keepsInstances_def by (metis fst_conv snd_conv sum.distinct(1))

lemma keeps_nil: "keeps held s []"
  by (simp add: keeps_def)

lemma keeps_turn:
  assumes contract: "keepsInstances c held"
      and inv: "keeps held s hist"
      and g: "container_get c (target p) s = (Inr (fst ov), s1)"
      and st: "container_set c (target p) (snd ov) s1 = (Inr (), s2)"
  shows "keeps held s2 (hist @ turnEvents p ov) \<and> fetchesStored hist (turnEvents p ov)"
proof -
  have "keeps held s2 (hist @ turnEvents p ov)"
    unfolding keeps_def
  proof (intro allI impI)
    fix k u assume mem: "SetCall k u \<in> set (hist @ turnEvents p ov)"
    show "\<exists>v. held s2 k = Some v \<and> SetCall k v \<in> set (hist @ turnEvents p ov)"
    proof (cases "k = target p")
      case True
      with contract_set_stores[OF contract st] show ?thesis by (auto simp: turnEvents_def)
    next
      case False
      with mem have "SetCall k u \<in> set hist" by (auto simp: turnEvents_def)
      with inv obtain v where v: "held s k = Some v" "SetCall k v \<in> set hist"
        by (auto simp: keeps_def)
      from contract_get_keeps[OF contract v(1) g] have "held s1 k = Some v" .
      from contract_set_other[OF contract this False st] v(2) show ?thesis by auto
    qed
  qed
  moreover have "fetchesStored hist (turnEvents p ov)"
  proof -
    have "SetCall (target p) (fst ov) \<in> set hist" if "SetCall (target p) u \<in> set hist" for u
    proof -
      from inv that obtain v where v: "held s (target p) = Some v" "SetCall (target p) v \<in> set hist"
        by (auto simp: keeps_def)
      from contract_get[OF contract v(1)] g have "v = fst ov" by simp
      with v(2) show ?thesis by simp
    qed
    then show ?thesis by (auto simp: turnEvents_def)
  qed
  ultimately show ?thesis ..
qed

lemma once_keeps:
  "keepsInstances c held \<Longrightarrow> keeps held s hist \<Longrightarrow> eachPatchAppliedOnce c ps ovs s s' \<Longrightarrow>
         keeps held s' (hist @ concat (map2 turnEvents ps ovs))
         \<and> fetchesStored hist (concat (map2 turnEvents ps ovs))"
proof (induction c ps ovs s s' arbitrary: hist rule: eachPatchAppliedOnce.induct)
  case (1 c s s')
  then show ?case by simp
next
  case (2 c p ps ov ovs s s')
  from "2.prems"(3) obtain s1 s2 where
    g: "container_get c (target p) s = (Inr (fst ov), s1)"
    and st: "container_set c (target p) (snd ov) s1 = (Inr (), s2)"
    and rest: "eachPatchAppliedOnce c ps ovs s2 s'" by auto
  from keeps_turn[OF "2.prems"(1) "2.prems"(2) g st]
  have k1: "keeps held s2 (hist @ turnEvents p ov)" and f1: "fetchesStored hist (turnEvents p ov)"
    by auto
  from "2.IH"[OF "2.prems"(1) k1 rest]
  have "keeps held s' ((hist @ turnEvents p ov) @ concat (map2 turnEvents ps ovs))"
    "fetchesStored (hist @ turnEvents p ov) (concat (map2 turnEvents ps ovs))" by auto
  with f1 show ?case by (simp add: fetchesStored_append)
next
  case (3 c ov ovs s s')
  then show ?case by simp
next
  case (4 c p ps s s')
  then show ?case by simp
qed

lemma raises_keeps:
  assumes contract: "keepsInstances c held"
      and inv: "keeps held s hist"
      and r: "turnRaises c p s e s' calls"
  shows "keeps held s' hist"
  unfolding keeps_def
proof (intro allI impI)
  fix k u assume "SetCall k u \<in> set hist"
  with inv obtain v where v: "held s k = Some v" "SetCall k v \<in> set hist"
    by (auto simp: keeps_def)
  from r have "held s' k = Some v"
    unfolding turnRaises_def
  proof (elim disjE exE conjE)
    assume "container_get c (target p) s = (Inl e, s')"
    from contract_get_keeps[OF contract v(1) this] show ?thesis .
  next
    fix original assume "container_get c (target p) s = (Inr original, s')"
    from contract_get_keeps[OF contract v(1) this] show ?thesis .
  next
    fix original s1 patched
    assume g: "container_get c (target p) s = (Inr original, s1)"
      and st: "container_set c (target p) patched s1 = (Inl e, s')"
    from contract_get_keeps[OF contract v(1) g] have "held s1 k = Some v" .
    from contract_set_raises[OF contract this st] show ?thesis .
  qed
  with v(2) show "\<exists>v. held s' k = Some v \<and> SetCall k v \<in> set hist" by blast
qed

lemma once_sets:
  "eachPatchAppliedOnce c ps ovs s s' \<Longrightarrow> p \<in> set ps \<Longrightarrow>
   \<exists>w w' pre post. factory p w = Inr w' \<and>
     concat (map2 turnEvents ps ovs)
       = pre @ GetCall (target p) # FactoryCall (target p) w # SetCall (target p) w' # post"
proof (induction c ps ovs s s' rule: eachPatchAppliedOnce.induct)
  case (1 c s s')
  then show ?case by simp
next
  case (2 c q ps ov ovs s s')
  from "2.prems"(1) obtain s2 where
    f: "factory q (fst ov) = Inr (snd ov)"
    and rest: "eachPatchAppliedOnce c ps ovs s2 s'" by auto
  show ?case
  proof (cases "p = q")
    case True
    have "concat (map2 turnEvents (q # ps) (ov # ovs))
            = [] @ GetCall (target q) # FactoryCall (target q) (fst ov) # SetCall (target q) (snd ov)
                # (Log (Patched (target q) (ServicePatch.methodsOverridden q))
                   # concat (map2 turnEvents ps ovs))"
      by (simp add: turnEvents_def)
    with f True show ?thesis by blast
  next
    case False
    with "2.prems"(2) have "p \<in> set ps" by simp
    from "2.IH"[OF rest this] obtain w w' pre post where
      "factory p w = Inr w'"
      "concat (map2 turnEvents ps ovs)
         = pre @ GetCall (target p) # FactoryCall (target p) w # SetCall (target p) w' # post"
      by blast
    then have "factory p w = Inr w' \<and> concat (map2 turnEvents (q # ps) (ov # ovs))
        = (turnEvents q ov @ pre) @ GetCall (target p) # FactoryCall (target p) w
            # SetCall (target p) w' # post" by simp
    then show ?thesis by blast
  qed
next
  case (3 c ov ovs s s')
  then show ?case by simp
next
  case (4 c p ps s s')
  then show ?case by simp
qed

lemma applyPatch_starts:
  assumes "fst (container_get c (target p) st) = Inr w"
  shows "\<exists>tail. snd (snd (applyPatch toString c p st))
           = GetCall (target p) # FactoryCall (target p) w # tail"
proof -
  obtain st1 where g: "container_get c (target p) st = (Inr w, st1)"
    using assms by (cases "container_get c (target p) st") auto
  show ?thesis
  proof (cases "factory p w")
    case (Inl e)
    with g show ?thesis by (simp add: applyPatch_def)
  next
    case (Inr patched)
    obtain r st2 where "container_set c (target p) patched st1 = (r, st2)"
      by (cases "container_set c (target p) patched st1") auto
    with g Inr show ?thesis by (cases r) (simp_all add: applyPatch_def)
  qed
qed

lemma applyLoop_starts:
  assumes "fst (container_get c (target p) st) = Inr w"
  shows "\<exists>tail. snd (snd (applyLoop toString c (p # rest) st))
           = GetCall (target p) # FactoryCall (target p) w # tail"
proof -
  from applyPatch_starts[OF assms, of toString] obtain tail where
    t: "snd (snd (applyPatch toString c p st)) = GetCall (target p) # FactoryCall (target p) w # tail"
    by blast
  obtain r1 s1 evs1 where step: "applyPatch toString c p st = (r1, s1, evs1)"
    by (cases "applyPatch toString c p st") auto
  obtain r2 s2 evs2 where loop: "applyLoop toString c rest s1 = (r2, s2, evs2)"
    by (cases "applyLoop toString c rest s1") auto
  from t step loop show ?thesis by (cases r1) auto
qed

lemma applyPatches_rerun:
  assumes "\<not> applied this" and "patches this = redone @ rest"
      and "eachPatchAppliedOnce c redone wvs s st"
  shows "\<exists>tail. snd (snd (snd (applyPatches toString c this s)))
           = concat (map2 turnEvents redone wvs) @ snd (snd (applyLoop toString c rest st)) @ tail"
proof -
  obtain r s2 evs where loop: "applyLoop toString c rest st = (r, s2, evs)"
    by (cases "applyLoop toString c rest st") auto
  with once_applyLoop[OF assms(3), of toString]
  have "applyLoop toString c (redone @ rest) s = (r, s2, concat (map2 turnEvents redone wvs) @ evs)"
    by (simp add: applyLoop_append)
  with assms(1,2) loop show ?thesis
    by (cases r) (simp_all add: applyPatches_def)
qed

lemma lazy_contract: "keepsInstances lazyContainer (\<lambda>st. st)"
  by (auto simp: keepsInstances_def lazyContainer_simps split: option.splits)

lemma lazy_first:
  "eachPatchAppliedOnce lazyContainer [wrapPatch ''A'' ''P1'', wrapPatch ''B'' ''P2'']
     [(''new A'', ''P1(new A)''), (''new B'', ''P2(new B)'')]
     Map.empty [''A'' \<mapsto> ''P1(new A)'', ''B'' \<mapsto> ''P2(new B)'']"
  by (simp add: fixture_simps lazyContainer_simps)

lemma lazy_fails:
  "turnRaises lazyContainer (wrapPatch ''C'' ''P3'')
     [''A'' \<mapsto> ''P1(new A)'', ''B'' \<mapsto> ''P2(new B)''] ''C is frozen''
     [''A'' \<mapsto> ''P1(new A)'', ''B'' \<mapsto> ''P2(new B)'', ''C'' \<mapsto> ''new C'']
     [GetCall ''C'', FactoryCall ''C'' ''new C'', SetCall ''C'' ''P3(new C)'']"
  by (simp add: turnRaises_def fixture_simps lazyContainer_simps)

lemma lazy_second:
  "eachPatchAppliedOnce lazyContainer [wrapPatch ''A'' ''P1'', wrapPatch ''B'' ''P2'']
     [(''P1(new A)'', ''P1(P1(new A))''), (''P2(new B)'', ''P2(P2(new B))'')]
     [''A'' \<mapsto> ''P1(new A)'', ''B'' \<mapsto> ''P2(new B)'', ''C'' \<mapsto> ''new C'']
     ([''A'' \<mapsto> ''P1(new A)'', ''B'' \<mapsto> ''P2(new B)'', ''C'' \<mapsto> ''new C'']
        (''A'' \<mapsto> ''P1(P1(new A))'', ''B'' \<mapsto> ''P2(P2(new B))''))"
  by (simp add: fixture_simps lazyContainer_simps)

lemma lazy_second_one:
  "eachPatchAppliedOnce lazyContainer [wrapPatch ''A'' ''P1'']
     [(''P1(new A)'', ''P1(P1(new A))'')]
     [''A'' \<mapsto> ''P1(new A)'', ''B'' \<mapsto> ''P2(new B)'', ''C'' \<mapsto> ''new C'']
     ([''A'' \<mapsto> ''P1(new A)'', ''B'' \<mapsto> ''P2(new B)'', ''C'' \<mapsto> ''new C'']
        (''A'' \<mapsto> ''P1(P1(new A))''))"
  by (simp add: fixture_simps lazyContainer_simps)

lemma lazy_fails_again:
  "turnRaises lazyContainer (wrapPatch ''C'' ''P3'')
     ([''A'' \<mapsto> ''P1(new A)'', ''B'' \<mapsto> ''P2(new B)'', ''C'' \<mapsto> ''new C'']
        (''A'' \<mapsto> ''P1(P1(new A))'', ''B'' \<mapsto> ''P2(P2(new B))'')) ''C is frozen''
     ([''A'' \<mapsto> ''P1(new A)'', ''B'' \<mapsto> ''P2(new B)'', ''C'' \<mapsto> ''new C'']
        (''A'' \<mapsto> ''P1(P1(new A))'', ''B'' \<mapsto> ''P2(P2(new B))''))
     [GetCall ''C'', FactoryCall ''C'' ''new C'', SetCall ''C'' ''P3(new C)'']"
  by (simp add: turnRaises_def fixture_simps lazyContainer_simps)

text \<open>
  Against C5 as worded. The first of three patches refuses an instance it has wrapped
  before. The first call applies it and the second patch, and fails at the third. The
  next call fetches the wrapped instance for the first patch, whose factory raises: the
  call stops there, nothing is wrapped again, and \<open>get\<close> is never called for the
  second patch, though that patch had succeeded before the failure.
\<close>

theorem reapply_stops_counterexample:
  "applyPatches jsString mapContainer (registryOf guardedPatches) store0 =
     (Inl ''boom'', registryOf guardedPatches,
      store0(''A'' \<mapsto> ''P1(a)'', ''B'' \<mapsto> ''P2(b)''),
      [GetCall ''A'', FactoryCall ''A'' ''a'', SetCall ''A'' ''P1(a)'', Log (Patched ''A'' None),
       GetCall ''B'', FactoryCall ''B'' ''b'', SetCall ''B'' ''P2(b)'', Log (Patched ''B'' None),
       GetCall ''C'', FactoryCall ''C'' ''c'', Log (ErrorFailedToApply ''C'' ''boom'')])
   \<and> applyPatches jsString mapContainer (registryOf guardedPatches)
         (store0(''A'' \<mapsto> ''P1(a)'', ''B'' \<mapsto> ''P2(b)'')) =
     (Inl ''already wrapped'', registryOf guardedPatches,
      store0(''A'' \<mapsto> ''P1(a)'', ''B'' \<mapsto> ''P2(b)''),
      [GetCall ''A'', FactoryCall ''A'' ''P1(a)'',
       Log (ErrorFailedToApply ''A'' ''already wrapped'')])"
  by (simp add: applyPatches_def applyPatch_def guardedPatches_def guarded_simps fixture_simps
        mapContainer_simps store0_simps thrown_simps)

text \<open>
  C5, as the code has it. The container keeps its instances, \<open>keepsInstances\<close>. A
  registry not yet applied holds the patches \<open>before\<close>, then \<open>q\<close>, then \<open>after\<close>; in a
  first call the patches \<open>before\<close> are applied and a step of \<open>q\<close> raises \<open>e\<close>, be it
  \<open>get\<close>, the factory or \<open>set\<close>. A second call on the container as the first left it
  gets through the patches \<open>redone\<close>, the first so many of the list, with \<open>rest\<close> to
  come. Then:
  \<^item> the first call throws and returns the registry as it was, \<open>applied\<close> false;
  \<^item> for every patch of \<open>before\<close>, \<open>get\<close> on the container the first call left
    returns an instance that a \<open>set\<close> of the first call stored for its target;
  \<^item> the second call starts again at the first patch: its events begin with those of
    the patches \<open>redone\<close>, one \<open>get\<close>, factory and \<open>set\<close> each, in order;
  \<^item> each patch of \<open>redone\<close> whose target a patch of \<open>before\<close> has is applied a
    second time: its factory is handed an instance that a \<open>set\<close> made earlier, in the
    first call or in this one, had stored for the target, and \<open>set\<close> stores what the
    factory makes of it;
  \<^item> the patch the second call reaches next, when a patch of \<open>before\<close> has its target,
    is fetched with \<open>get\<close> and its factory is handed an instance stored earlier in the
    same way, whatever the factory then does;
  \<^item> when a step of that next patch raises, the second call stops there as the first
    did: it throws, returns the registry as it was, and runs no step of a later patch.
\<close>

theorem failed_apply_is_repeated:
  assumes contract: "keepsInstances c held"
      and fresh: "\<not> applied this"
      and split: "patches this = before @ q # after"
      and ok: "eachPatchAppliedOnce c before ovs s s1"
      and fails: "turnRaises c q s1 e s1' calls"
      and resplit: "patches this = redone @ rest"
      and through: "eachPatchAppliedOnce c redone wvs s1' st"
  shows "applyPatches toString c this s
           = (Inl (thrown toString e), this, s1',
              concat (map2 turnEvents before ovs) @ calls @ errorLine toString (target q) e)
         \<and> \<not> isApplied (fst (snd (applyPatches toString c this s)))
         \<and> (\<forall>p \<in> set before. \<exists>v.
               fst (container_get c (target p) s1') = Inr v
               \<and> SetCall (target p) v \<in> set (concat (map2 turnEvents before ovs)))
         \<and> (\<exists>tail. snd (snd (snd (applyPatches toString c this s1')))
               = concat (map2 turnEvents redone wvs) @ tail)
         \<and> (\<forall>p \<in> set redone. target p \<in> target ` set before \<longrightarrow>
               (\<exists>w w' pre post.
                  concat (map2 turnEvents redone wvs)
                    = pre @ GetCall (target p) # FactoryCall (target p) w
                        # SetCall (target p) w' # post
                  \<and> SetCall (target p) w \<in> set (concat (map2 turnEvents before ovs) @ pre)
                  \<and> factory p w = Inr w'))
         \<and> (\<forall>p' rest'. rest = p' # rest' \<and> target p' \<in> target ` set before \<longrightarrow>
               (\<exists>w tail.
                  fst (container_get c (target p') st) = Inr w
                  \<and> SetCall (target p') w
                      \<in> set (concat (map2 turnEvents before ovs)
                              @ concat (map2 turnEvents redone wvs))
                  \<and> snd (snd (snd (applyPatches toString c this s1')))
                      = concat (map2 turnEvents redone wvs)
                        @ GetCall (target p') # FactoryCall (target p') w # tail))
         \<and> (\<forall>p' rest' e' st' calls'. rest = p' # rest' \<and> turnRaises c p' st e' st' calls' \<longrightarrow>
               applyPatches toString c this s1'
                 = (Inl (thrown toString e'), this, st',
                    concat (map2 turnEvents redone wvs) @ calls'
                    @ errorLine toString (target p') e'))"
proof -
  let ?evs0 = "concat (map2 turnEvents before ovs)"
  let ?evsd = "concat (map2 turnEvents redone wvs)"
  have first: "applyPatches toString c this s
                 = (Inl (thrown toString e), this, s1',
                    ?evs0 @ calls @ errorLine toString (target q) e)"
    using fresh split applyLoop_stops[OF ok fails, of toString after]
    by (simp add: applyPatches_def)
  have unapplied: "\<not> isApplied (fst (snd (applyPatches toString c this s)))"
    using fresh by (simp add: first isApplied_def)
  from once_keeps[OF contract keeps_nil ok]
  have k1: "keeps held s1 ?evs0" by simp
  from raises_keeps[OF contract k1 fails]
  have k1': "keeps held s1' ?evs0" .
  from once_keeps[OF contract k1' through]
  have kd: "keeps held st (?evs0 @ ?evsd)" and fd: "fetchesStored ?evs0 ?evsd" by auto
  have set_before: "\<exists>u. SetCall k u \<in> set ?evs0" if "k \<in> target ` set before" for k
  proof -
    from that obtain p0 where p0: "p0 \<in> set before" "k = target p0" by auto
    from once_sets[OF ok p0(1)] obtain w w' pre post where
      d: "?evs0 = pre @ GetCall (target p0) # FactoryCall (target p0) w
                    # SetCall (target p0) w' # post" by blast
    have "SetCall (target p0) w' \<in> set ?evs0" unfolding d by simp
    with p0(2) show ?thesis by blast
  qed
  have held_after: "\<exists>v. fst (container_get c (target p) s1') = Inr v
                      \<and> SetCall (target p) v \<in> set ?evs0" if "p \<in> set before" for p
  proof -
    from that have "target p \<in> target ` set before" by simp
    from set_before[OF this] obtain u where "SetCall (target p) u \<in> set ?evs0" ..
    with k1' obtain v where v: "held s1' (target p) = Some v" "SetCall (target p) v \<in> set ?evs0"
      unfolding keeps_def by blast
    from contract_get[OF contract v(1)] v(2) show ?thesis by blast
  qed
  from applyPatches_rerun[OF fresh resplit through, of toString]
  obtain tail0 where rerun: "snd (snd (snd (applyPatches toString c this s1')))
      = ?evsd @ snd (snd (applyLoop toString c rest st)) @ tail0" ..
  then have again: "\<exists>tail. snd (snd (snd (applyPatches toString c this s1'))) = ?evsd @ tail"
    by blast
  have wrapped: "\<exists>w w' pre post.
                   ?evsd = pre @ GetCall (target p) # FactoryCall (target p) w
                             # SetCall (target p) w' # post
                   \<and> SetCall (target p) w \<in> set (?evs0 @ pre)
                   \<and> factory p w = Inr w'"
    if "p \<in> set redone" and "target p \<in> target ` set before" for p
  proof -
    from once_sets[OF through that(1)] obtain w w' pre post where
      f: "factory p w = Inr w'"
      and d: "?evsd = pre @ GetCall (target p) # FactoryCall (target p) w
                        # SetCall (target p) w' # post" by blast
    from set_before[OF that(2)] obtain u where u: "SetCall (target p) u \<in> set ?evs0" ..
    from d have d': "?evsd = (pre @ [GetCall (target p)]) @ FactoryCall (target p) w
                        # (SetCall (target p) w' # post)" by simp
    from u have "SetCall (target p) u \<in> set (?evs0 @ pre @ [GetCall (target p)])" by simp
    from fetchesStored_split[OF fd d' this]
    have "SetCall (target p) w \<in> set (?evs0 @ pre)" by simp
    with f d show ?thesis by blast
  qed
  have next_one: "\<exists>w tail.
                    fst (container_get c (target p') st) = Inr w
                    \<and> SetCall (target p') w \<in> set (?evs0 @ ?evsd)
                    \<and> snd (snd (snd (applyPatches toString c this s1')))
                        = ?evsd @ GetCall (target p') # FactoryCall (target p') w # tail"
    if "rest = p' # rest'" and "target p' \<in> target ` set before" for p' rest'
  proof -
    from set_before[OF that(2)] obtain u where "SetCall (target p') u \<in> set ?evs0" ..
    then have "SetCall (target p') u \<in> set (?evs0 @ ?evsd)"
      unfolding set_append by (rule UnI1)
    with kd obtain w where w: "held st (target p') = Some w"
      "SetCall (target p') w \<in> set (?evs0 @ ?evsd)"
      unfolding keeps_def by blast
    from contract_get[OF contract w(1)] have g: "fst (container_get c (target p') st) = Inr w" .
    from applyLoop_starts[OF g, of toString rest'] obtain tail1 where
      "snd (snd (applyLoop toString c (p' # rest') st))
         = GetCall (target p') # FactoryCall (target p') w # tail1" ..
    with rerun that(1)
    have "snd (snd (snd (applyPatches toString c this s1')))
            = ?evsd @ GetCall (target p') # FactoryCall (target p') w # (tail1 @ tail0)" by simp
    with g w(2) show ?thesis by blast
  qed
  have stops: "applyPatches toString c this s1'
                 = (Inl (thrown toString e'), this, st',
                    ?evsd @ calls' @ errorLine toString (target p') e')"
    if "rest = p' # rest'" and "turnRaises c p' st e' st' calls'" for p' rest' e' st' calls'
    using fresh resplit that(1) applyLoop_stops[OF through that(2), of toString rest']
    by (simp add: applyPatches_def)
  from first unapplied held_after again wrapped next_one stops show ?thesis
    by blast
qed

text \<open>
  Three wrapping patches on the container that creates on \<open>get\<close> and refuses to store
  for \<open>C\<close>: the first call wraps \<open>A\<close> and \<open>B\<close> and fails at the \<open>set\<close> for \<open>C\<close>; the
  second wraps the wrappers of \<open>A\<close> and \<open>B\<close> and fails at \<open>C\<close> again.
\<close>

theorem failed_apply_is_repeated_witness:
  "keepsInstances lazyContainer (\<lambda>st. st)
   \<and> applyPatches jsString lazyContainer (registryOf wrapABC) Map.empty =
       (Inl ''C is frozen'', registryOf wrapABC,
        [''A'' \<mapsto> ''P1(new A)'', ''B'' \<mapsto> ''P2(new B)'', ''C'' \<mapsto> ''new C''],
        [GetCall ''A'', FactoryCall ''A'' ''new A'', SetCall ''A'' ''P1(new A)'',
         Log (Patched ''A'' None),
         GetCall ''B'', FactoryCall ''B'' ''new B'', SetCall ''B'' ''P2(new B)'',
         Log (Patched ''B'' None),
         GetCall ''C'', FactoryCall ''C'' ''new C'', SetCall ''C'' ''P3(new C)'',
         Log (ErrorFailedToApply ''C'' ''C is frozen'')])
   \<and> \<not> isApplied (fst (snd (applyPatches jsString lazyContainer (registryOf wrapABC) Map.empty)))
   \<and> (\<exists>v. fst (container_get lazyContainer ''B''
                 [''A'' \<mapsto> ''P1(new A)'', ''B'' \<mapsto> ''P2(new B)'', ''C'' \<mapsto> ''new C'']) = Inr v
           \<and> SetCall ''B'' v
               \<in> set [GetCall ''A'', FactoryCall ''A'' ''new A'', SetCall ''A'' ''P1(new A)'',
                       Log (Patched ''A'' None),
                       GetCall ''B'', FactoryCall ''B'' ''new B'', SetCall ''B'' ''P2(new B)'',
                       Log (Patched ''B'' None)])
   \<and> (\<exists>w w' pre post.
         [GetCall ''A'', FactoryCall ''A'' ''P1(new A)'', SetCall ''A'' ''P1(P1(new A))'',
          Log (Patched ''A'' None),
          GetCall ''B'', FactoryCall ''B'' ''P2(new B)'', SetCall ''B'' ''P2(P2(new B))'',
          Log (Patched ''B'' None)]
           = pre @ GetCall ''B'' # FactoryCall ''B'' w # SetCall ''B'' w' # post
         \<and> SetCall ''B'' w
             \<in> set ([GetCall ''A'', FactoryCall ''A'' ''new A'', SetCall ''A'' ''P1(new A)'',
                      Log (Patched ''A'' None),
                      GetCall ''B'', FactoryCall ''B'' ''new B'', SetCall ''B'' ''P2(new B)'',
                      Log (Patched ''B'' None)] @ pre)
         \<and> factory (wrapPatch ''B'' ''P2'') w = Inr w')
   \<and> (\<exists>w tail.
         fst (container_get lazyContainer ''B''
                ([''A'' \<mapsto> ''P1(new A)'', ''B'' \<mapsto> ''P2(new B)'', ''C'' \<mapsto> ''new C'']
                   (''A'' \<mapsto> ''P1(P1(new A))''))) = Inr w
         \<and> SetCall ''B'' w
             \<in> set [GetCall ''A'', FactoryCall ''A'' ''new A'', SetCall ''A'' ''P1(new A)'',
                     Log (Patched ''A'' None),
                     GetCall ''B'', FactoryCall ''B'' ''new B'', SetCall ''B'' ''P2(new B)'',
                     Log (Patched ''B'' None)]
         \<and> snd (snd (snd (applyPatches jsString lazyContainer (registryOf wrapABC)
                  [''A'' \<mapsto> ''P1(new A)'', ''B'' \<mapsto> ''P2(new B)'', ''C'' \<mapsto> ''new C''])))
             = [GetCall ''A'', FactoryCall ''A'' ''P1(new A)'', SetCall ''A'' ''P1(P1(new A))'',
                Log (Patched ''A'' None)]
               @ GetCall ''B'' # FactoryCall ''B'' w # tail)
   \<and> applyPatches jsString lazyContainer (registryOf wrapABC)
         [''A'' \<mapsto> ''P1(new A)'', ''B'' \<mapsto> ''P2(new B)'', ''C'' \<mapsto> ''new C''] =
       (Inl ''C is frozen'', registryOf wrapABC,
        [''A'' \<mapsto> ''P1(new A)'', ''B'' \<mapsto> ''P2(new B)'', ''C'' \<mapsto> ''new C'']
          (''A'' \<mapsto> ''P1(P1(new A))'', ''B'' \<mapsto> ''P2(P2(new B))''),
        [GetCall ''A'', FactoryCall ''A'' ''P1(new A)'', SetCall ''A'' ''P1(P1(new A))'',
         Log (Patched ''A'' None),
         GetCall ''B'', FactoryCall ''B'' ''P2(new B)'', SetCall ''B'' ''P2(P2(new B))'',
         Log (Patched ''B'' None),
         GetCall ''C'', FactoryCall ''C'' ''new C'', SetCall ''C'' ''P3(new C)'',
         Log (ErrorFailedToApply ''C'' ''C is frozen'')])"
proof -
  let ?A = "wrapPatch ''A'' ''P1''" and ?B = "wrapPatch ''B'' ''P2''"
    and ?C = "wrapPatch ''C'' ''P3''"
  have fresh: "\<not> applied (registryOf wrapABC)" by (simp add: fixture_simps)
  have split: "patches (registryOf wrapABC) = [?A, ?B] @ ?C # []"
    by (simp add: fixture_simps wrapABC_def)
  have resplit: "patches (registryOf wrapABC) = [?A, ?B] @ [?C]"
    by (simp add: fixture_simps wrapABC_def)
  have resplit1: "patches (registryOf wrapABC) = [?A] @ [?B, ?C]"
    by (simp add: fixture_simps wrapABC_def)
  have evs0: "concat (map2 turnEvents [?A, ?B]
                 [(''new A'', ''P1(new A)''), (''new B'', ''P2(new B)'')])
              = [GetCall ''A'', FactoryCall ''A'' ''new A'', SetCall ''A'' ''P1(new A)'',
                 Log (Patched ''A'' None),
                 GetCall ''B'', FactoryCall ''B'' ''new B'', SetCall ''B'' ''P2(new B)'',
                 Log (Patched ''B'' None)]"
    by (simp add: turnEvents_def fixture_simps)
  have evsd: "concat (map2 turnEvents [?A, ?B]
                 [(''P1(new A)'', ''P1(P1(new A))''), (''P2(new B)'', ''P2(P2(new B))'')])
              = [GetCall ''A'', FactoryCall ''A'' ''P1(new A)'', SetCall ''A'' ''P1(P1(new A))'',
                 Log (Patched ''A'' None),
                 GetCall ''B'', FactoryCall ''B'' ''P2(new B)'', SetCall ''B'' ''P2(P2(new B))'',
                 Log (Patched ''B'' None)]"
    by (simp add: turnEvents_def fixture_simps)
  have evsd1: "concat (map2 turnEvents [?A] [(''P1(new A)'', ''P1(P1(new A))'')])
              = [GetCall ''A'', FactoryCall ''A'' ''P1(new A)'', SetCall ''A'' ''P1(P1(new A))'',
                 Log (Patched ''A'' None)]"
    by (simp add: turnEvents_def fixture_simps)
  have tB: "target ?B = ''B''" and tC: "target ?C = ''C''" by (simp_all add: fixture_simps)
  have inB: "?B \<in> set [?A, ?B]" by simp
  have tinB: "target ?B \<in> target ` set [?A, ?B]" by simp
  note t = failed_apply_is_repeated[OF lazy_contract fresh split lazy_first lazy_fails
             resplit lazy_second, of jsString, unfolded evs0 evsd]
  note t1 = failed_apply_is_repeated[OF lazy_contract fresh split lazy_first lazy_fails
             resplit1 lazy_second_one, of jsString, unfolded evs0 evsd1]
  from t have c1: "applyPatches jsString lazyContainer (registryOf wrapABC) Map.empty =
       (Inl (thrown jsString ''C is frozen''), registryOf wrapABC,
        [''A'' \<mapsto> ''P1(new A)'', ''B'' \<mapsto> ''P2(new B)'', ''C'' \<mapsto> ''new C''],
        [GetCall ''A'', FactoryCall ''A'' ''new A'', SetCall ''A'' ''P1(new A)'',
         Log (Patched ''A'' None),
         GetCall ''B'', FactoryCall ''B'' ''new B'', SetCall ''B'' ''P2(new B)'',
         Log (Patched ''B'' None)]
        @ [GetCall ''C'', FactoryCall ''C'' ''new C'', SetCall ''C'' ''P3(new C)'']
        @ errorLine jsString (target ?C) ''C is frozen'')"
    by (rule conjunct1)
  from t have c2: "\<not> isApplied (fst (snd (applyPatches jsString lazyContainer
                                             (registryOf wrapABC) Map.empty)))"
    by (elim conjE)
  from t have "\<forall>p \<in> set [?A, ?B]. \<exists>v.
       fst (container_get lazyContainer (target p)
              [''A'' \<mapsto> ''P1(new A)'', ''B'' \<mapsto> ''P2(new B)'', ''C'' \<mapsto> ''new C'']) = Inr v
       \<and> SetCall (target p) v
           \<in> set [GetCall ''A'', FactoryCall ''A'' ''new A'', SetCall ''A'' ''P1(new A)'',
                   Log (Patched ''A'' None),
                   GetCall ''B'', FactoryCall ''B'' ''new B'', SetCall ''B'' ''P2(new B)'',
                   Log (Patched ''B'' None)]"
    by (elim conjE)
  from bspec[OF this inB]
  have c3: "\<exists>v. fst (container_get lazyContainer ''B''
                 [''A'' \<mapsto> ''P1(new A)'', ''B'' \<mapsto> ''P2(new B)'', ''C'' \<mapsto> ''new C'']) = Inr v
           \<and> SetCall ''B'' v
               \<in> set [GetCall ''A'', FactoryCall ''A'' ''new A'', SetCall ''A'' ''P1(new A)'',
                       Log (Patched ''A'' None),
                       GetCall ''B'', FactoryCall ''B'' ''new B'', SetCall ''B'' ''P2(new B)'',
                       Log (Patched ''B'' None)]"
    unfolding tB .
  from t have "\<forall>p \<in> set [?A, ?B]. target p \<in> target ` set [?A, ?B] \<longrightarrow>
       (\<exists>w w' pre post.
         [GetCall ''A'', FactoryCall ''A'' ''P1(new A)'', SetCall ''A'' ''P1(P1(new A))'',
          Log (Patched ''A'' None),
          GetCall ''B'', FactoryCall ''B'' ''P2(new B)'', SetCall ''B'' ''P2(P2(new B))'',
          Log (Patched ''B'' None)]
           = pre @ GetCall (target p) # FactoryCall (target p) w # SetCall (target p) w' # post
         \<and> SetCall (target p) w
             \<in> set ([GetCall ''A'', FactoryCall ''A'' ''new A'', SetCall ''A'' ''P1(new A)'',
                      Log (Patched ''A'' None),
                      GetCall ''B'', FactoryCall ''B'' ''new B'', SetCall ''B'' ''P2(new B)'',
                      Log (Patched ''B'' None)] @ pre)
         \<and> factory p w = Inr w')"
    by (elim conjE)
  from bspec[OF this inB, THEN mp, OF tinB]
  have c5: "\<exists>w w' pre post.
         [GetCall ''A'', FactoryCall ''A'' ''P1(new A)'', SetCall ''A'' ''P1(P1(new A))'',
          Log (Patched ''A'' None),
          GetCall ''B'', FactoryCall ''B'' ''P2(new B)'', SetCall ''B'' ''P2(P2(new B))'',
          Log (Patched ''B'' None)]
           = pre @ GetCall ''B'' # FactoryCall ''B'' w # SetCall ''B'' w' # post
         \<and> SetCall ''B'' w
             \<in> set ([GetCall ''A'', FactoryCall ''A'' ''new A'', SetCall ''A'' ''P1(new A)'',
                      Log (Patched ''A'' None),
                      GetCall ''B'', FactoryCall ''B'' ''new B'', SetCall ''B'' ''P2(new B)'',
                      Log (Patched ''B'' None)] @ pre)
         \<and> factory ?B w = Inr w'"
    unfolding tB .
  from t1 have "\<forall>p' rest'. [?B, ?C] = p' # rest' \<and> target p' \<in> target ` set [?A, ?B] \<longrightarrow>
       (\<exists>w tail.
          fst (container_get lazyContainer (target p')
                 ([''A'' \<mapsto> ''P1(new A)'', ''B'' \<mapsto> ''P2(new B)'', ''C'' \<mapsto> ''new C'']
                    (''A'' \<mapsto> ''P1(P1(new A))''))) = Inr w
          \<and> SetCall (target p') w
              \<in> set ([GetCall ''A'', FactoryCall ''A'' ''new A'', SetCall ''A'' ''P1(new A)'',
                       Log (Patched ''A'' None),
                       GetCall ''B'', FactoryCall ''B'' ''new B'', SetCall ''B'' ''P2(new B)'',
                       Log (Patched ''B'' None)]
                      @ [GetCall ''A'', FactoryCall ''A'' ''P1(new A)'',
                         SetCall ''A'' ''P1(P1(new A))'', Log (Patched ''A'' None)])
          \<and> snd (snd (snd (applyPatches jsString lazyContainer (registryOf wrapABC)
                   [''A'' \<mapsto> ''P1(new A)'', ''B'' \<mapsto> ''P2(new B)'', ''C'' \<mapsto> ''new C''])))
              = [GetCall ''A'', FactoryCall ''A'' ''P1(new A)'', SetCall ''A'' ''P1(P1(new A))'',
                 Log (Patched ''A'' None)]
                @ GetCall (target p') # FactoryCall (target p') w # tail)"
    by (elim conjE)
  from this[THEN spec, THEN spec, THEN mp, OF conjI[OF refl tinB]]
  have c6: "\<exists>w tail.
         fst (container_get lazyContainer ''B''
                ([''A'' \<mapsto> ''P1(new A)'', ''B'' \<mapsto> ''P2(new B)'', ''C'' \<mapsto> ''new C'']
                   (''A'' \<mapsto> ''P1(P1(new A))''))) = Inr w
         \<and> SetCall ''B'' w
             \<in> set [GetCall ''A'', FactoryCall ''A'' ''new A'', SetCall ''A'' ''P1(new A)'',
                     Log (Patched ''A'' None),
                     GetCall ''B'', FactoryCall ''B'' ''new B'', SetCall ''B'' ''P2(new B)'',
                     Log (Patched ''B'' None)]
         \<and> snd (snd (snd (applyPatches jsString lazyContainer (registryOf wrapABC)
                  [''A'' \<mapsto> ''P1(new A)'', ''B'' \<mapsto> ''P2(new B)'', ''C'' \<mapsto> ''new C''])))
             = [GetCall ''A'', FactoryCall ''A'' ''P1(new A)'', SetCall ''A'' ''P1(P1(new A))'',
                Log (Patched ''A'' None)]
               @ GetCall ''B'' # FactoryCall ''B'' w # tail"
    unfolding tB by (auto simp: lazyContainer_simps)
  from t have "\<forall>p' rest' e' st' calls'.
       [?C] = p' # rest'
       \<and> turnRaises lazyContainer p'
            ([''A'' \<mapsto> ''P1(new A)'', ''B'' \<mapsto> ''P2(new B)'', ''C'' \<mapsto> ''new C'']
               (''A'' \<mapsto> ''P1(P1(new A))'', ''B'' \<mapsto> ''P2(P2(new B))'')) e' st' calls' \<longrightarrow>
       applyPatches jsString lazyContainer (registryOf wrapABC)
           [''A'' \<mapsto> ''P1(new A)'', ''B'' \<mapsto> ''P2(new B)'', ''C'' \<mapsto> ''new C'']
         = (Inl (thrown jsString e'), registryOf wrapABC, st',
            [GetCall ''A'', FactoryCall ''A'' ''P1(new A)'', SetCall ''A'' ''P1(P1(new A))'',
             Log (Patched ''A'' None),
             GetCall ''B'', FactoryCall ''B'' ''P2(new B)'', SetCall ''B'' ''P2(P2(new B))'',
             Log (Patched ''B'' None)] @ calls'
            @ errorLine jsString (target p') e')"
    by (elim conjE)
  from this[THEN spec, THEN spec, THEN spec, THEN spec, THEN spec, THEN mp,
            OF conjI[OF refl lazy_fails_again]]
  have c7: "applyPatches jsString lazyContainer (registryOf wrapABC)
         [''A'' \<mapsto> ''P1(new A)'', ''B'' \<mapsto> ''P2(new B)'', ''C'' \<mapsto> ''new C''] =
       (Inl ''C is frozen'', registryOf wrapABC,
        [''A'' \<mapsto> ''P1(new A)'', ''B'' \<mapsto> ''P2(new B)'', ''C'' \<mapsto> ''new C'']
          (''A'' \<mapsto> ''P1(P1(new A))'', ''B'' \<mapsto> ''P2(P2(new B))''),
        [GetCall ''A'', FactoryCall ''A'' ''P1(new A)'', SetCall ''A'' ''P1(P1(new A))'',
         Log (Patched ''A'' None),
         GetCall ''B'', FactoryCall ''B'' ''P2(new B)'', SetCall ''B'' ''P2(P2(new B))'',
         Log (Patched ''B'' None),
         GetCall ''C'', FactoryCall ''C'' ''new C'', SetCall ''C'' ''P3(new C)'',
         Log (ErrorFailedToApply ''C'' ''C is frozen'')])"
    by (simp add: thrown_simps tC)
  from c1 have c1': "applyPatches jsString lazyContainer (registryOf wrapABC) Map.empty =
       (Inl ''C is frozen'', registryOf wrapABC,
        [''A'' \<mapsto> ''P1(new A)'', ''B'' \<mapsto> ''P2(new B)'', ''C'' \<mapsto> ''new C''],
        [GetCall ''A'', FactoryCall ''A'' ''new A'', SetCall ''A'' ''P1(new A)'',
         Log (Patched ''A'' None),
         GetCall ''B'', FactoryCall ''B'' ''new B'', SetCall ''B'' ''P2(new B)'',
         Log (Patched ''B'' None),
         GetCall ''C'', FactoryCall ''C'' ''new C'', SetCall ''C'' ''P3(new C)'',
         Log (ErrorFailedToApply ''C'' ''C is frozen'')])"
    by (simp add: thrown_simps tC)
  from lazy_contract c1' c2 c3 c5 c6 c7 show ?thesis by (intro conjI)
qed

section \<open>Properties of the file lookup, the plugin and the validator\<close>

lemma layout_simps:
  "aliasPrefixOf defaultOptions = ''@''"
  "aliasPrefixOf subAliasOptions = ''@n8n-base/app''"
  "verboseOf defaultOptions = False"
  "verboseOf subAliasOptions = False"
  "frontendExtensionsDir joinPath defaultOptions = ''/repo/Macaques/extensions/frontend''"
  "frontendExtensionsDir joinPath subAliasOptions = ''/repo/Macaques/extensions/frontend''"
  "n8nEditorUiSrc joinPath defaultOptions = ''/repo/n8n/packages/frontend/editor-ui/src''"
  "n8nEditorUiSrc joinPath subAliasOptions = ''/repo/n8n/packages/frontend/editor-ui/src''"
  by (simp_all add: aliasPrefixOf_def verboseOf_def frontendExtensionsDir_def n8nEditorUiSrc_def
        defaultOptions_def subAliasOptions_def)

lemma default_prefix_disjoint:
  assumes "aliasPrefix options = None" and "startsWith source ''@n8n-base/''"
  shows "\<not> startsWith source (aliasPrefixOf options @ ''/'')"
proof
  assume "startsWith source (aliasPrefixOf options @ ''/'')"
  with assms(1) have a: "take (length ''@/'') source = ''@/''"
    by (simp add: startsWith_def aliasPrefixOf_def)
  from assms(2) have b: "take (length ''@n8n-base/'') source = ''@n8n-base/''"
    by (simp add: startsWith_def)
  have "take (length ''@/'') (take (length ''@n8n-base/'') source) = take (length ''@/'') source"
    by (simp add: min_def)
  with a b show False by simp
qed

lemma findFile_none:
  "(\<forall>ext \<in> set exts. \<not> ex (b @ ext)) \<Longrightarrow> fst (findFileWithExtensions ex b exts) = None"
  by (induction exts) (auto simp: Let_def split: prod.splits)

lemma findFile_first:
  "i < length exts \<Longrightarrow> ex (b @ exts ! i) \<Longrightarrow> (\<forall>j<i. \<not> ex (b @ exts ! j)) \<Longrightarrow>
   fst (findFileWithExtensions ex b exts) = Some (b @ exts ! i)"
proof (induction exts arbitrary: i)
  case Nil
  then show ?case by simp
next
  case (Cons ext exts)
  show ?case
  proof (cases i)
    case 0
    with Cons.prems show ?thesis by (simp add: Let_def)
  next
    case (Suc n)
    with Cons.prems have "\<not> ex (b @ ext)" by auto
    moreover from Suc Cons.prems have "fst (findFileWithExtensions ex b exts) = Some (b @ exts ! n)"
      by (intro Cons.IH) auto
    ultimately show ?thesis using Suc by (auto simp: Let_def split: prod.splits)
  qed
qed

lemma first_index:
  "\<exists>x \<in> set xs. P x \<Longrightarrow> \<exists>i < length xs. P (xs ! i) \<and> (\<forall>j<i. \<not> P (xs ! j))"
proof (induction xs)
  case Nil
  then show ?case by simp
next
  case (Cons x xs)
  show ?case
  proof (cases "P x")
    case True
    then have "0 < length (x # xs) \<and> P ((x # xs) ! 0) \<and> (\<forall>j<0. \<not> P ((x # xs) ! j))" by simp
    then show ?thesis by blast
  next
    case False
    with Cons.prems have "\<exists>x \<in> set xs. P x" by auto
    from Cons.IH[OF this] obtain i where i: "i < length xs" "P (xs ! i)" "\<forall>j<i. \<not> P (xs ! j)"
      by blast
    have "\<forall>j<Suc i. \<not> P ((x # xs) ! j)"
    proof (intro allI impI)
      fix j assume "j < Suc i"
      with False i(3) show "\<not> P ((x # xs) ! j)" by (cases j) auto
    qed
    with i have "Suc i < length (x # xs) \<and> P ((x # xs) ! Suc i) \<and> (\<forall>j<Suc i. \<not> P ((x # xs) ! j))"
      by simp
    then show ?thesis by blast
  qed
qed

lemma findFile_cong:
  "(\<forall>ext \<in> set exts. ex (b @ ext) = ex' (b @ ext)) \<Longrightarrow>
   findFileWithExtensions ex b exts = findFileWithExtensions ex' b exts"
  by (induction exts) (auto simp: Let_def split: prod.splits)

lemma findFile_probes:
  "set (snd (findFileWithExtensions ex b exts)) \<subseteq> (\<lambda>ext. ExistsSync (b @ ext)) ` set exts"
  by (induction exts) (auto simp: Let_def split: prod.splits)

text \<open>
  C7. For every base path and every file system, with the suffix list
  \<open>['', '.ts', '.tsx', '.js', '.jsx', '.vue']\<close>: when some candidate \<open>base + suffix\<close>
  exists, \<open>findFileWithExtensions\<close> returns \<open>base + s\<close> for the first suffix \<open>s\<close> of
  the list whose candidate exists (no earlier suffix has one); when none exists it
  returns null. The result, and the probes made, are a function of which candidates
  exist: two file systems that agree on the six candidates give the same answer, so a
  call repeated on the same file system returns the same path.
\<close>

theorem first_suffix_in_list_order:
  "((\<exists>ext \<in> set defaultExtensions. existsSync (base @ ext)) \<longrightarrow>
      (\<exists>i < length defaultExtensions.
         fst (findFileWithExtensions existsSync base defaultExtensions)
           = Some (base @ defaultExtensions ! i)
         \<and> existsSync (base @ defaultExtensions ! i)
         \<and> (\<forall>j<i. \<not> existsSync (base @ defaultExtensions ! j))))
   \<and> ((\<forall>ext \<in> set defaultExtensions. \<not> existsSync (base @ ext)) \<longrightarrow>
      fst (findFileWithExtensions existsSync base defaultExtensions) = None)
   \<and> ((\<forall>ext \<in> set defaultExtensions. existsSync (base @ ext) = existsSync' (base @ ext)) \<longrightarrow>
      findFileWithExtensions existsSync base defaultExtensions
        = findFileWithExtensions existsSync' base defaultExtensions)"
proof (intro conjI impI)
  assume "\<exists>ext \<in> set defaultExtensions. existsSync (base @ ext)"
  from first_index[where P = "\<lambda>ext. existsSync (base @ ext)", OF this]
  obtain i where i: "i < length defaultExtensions" "existsSync (base @ defaultExtensions ! i)"
    "\<forall>j<i. \<not> existsSync (base @ defaultExtensions ! j)" by blast
  from findFile_first[OF this]
  have "fst (findFileWithExtensions existsSync base defaultExtensions)
          = Some (base @ defaultExtensions ! i)" .
  with i show "\<exists>i < length defaultExtensions.
         fst (findFileWithExtensions existsSync base defaultExtensions)
           = Some (base @ defaultExtensions ! i)
         \<and> existsSync (base @ defaultExtensions ! i)
         \<and> (\<forall>j<i. \<not> existsSync (base @ defaultExtensions ! j))" by blast
next
  assume "\<forall>ext \<in> set defaultExtensions. \<not> existsSync (base @ ext)"
  then show "fst (findFileWithExtensions existsSync base defaultExtensions) = None"
    by (rule findFile_none)
next
  assume "\<forall>ext \<in> set defaultExtensions. existsSync (base @ ext) = existsSync' (base @ ext)"
  then show "findFileWithExtensions existsSync base defaultExtensions
        = findFileWithExtensions existsSync' base defaultExtensions"
    by (rule findFile_cong)
qed

text \<open>
  Both \<open>/src/util.ts\<close> and \<open>/src/util.vue\<close> exist: the lookup returns the \<open>.ts\<close> file,
  the earlier suffix. On an empty file system it returns null.
\<close>

theorem first_suffix_in_list_order_witness:
  "fst (findFileWithExtensions fsTsAndVue ''/src/util'' defaultExtensions) = Some ''/src/util.ts''
   \<and> fst (findFileWithExtensions fsEmpty ''/src/util'' defaultExtensions) = None"
proof -
  have e: "\<exists>ext \<in> set defaultExtensions. fsTsAndVue (''/src/util'' @ ext)"
    by (simp add: defaultExtensions_def fsTsAndVue_def)
  with first_suffix_in_list_order[of fsTsAndVue "''/src/util''"]
  obtain i where i: "i < length defaultExtensions"
    "fst (findFileWithExtensions fsTsAndVue ''/src/util'' defaultExtensions)
       = Some (''/src/util'' @ defaultExtensions ! i)"
    "fsTsAndVue (''/src/util'' @ defaultExtensions ! i)"
    "\<forall>j<i. \<not> fsTsAndVue (''/src/util'' @ defaultExtensions ! j)"
    by blast
  have one: "fsTsAndVue (''/src/util'' @ defaultExtensions ! 1)"
    by (simp add: defaultExtensions_def fsTsAndVue_def)
  have "\<not> 1 < i" using i(4) one by blast
  moreover have "i \<noteq> 0"
  proof
    assume "i = 0"
    with i(3) show False by (simp add: defaultExtensions_def fsTsAndVue_def)
  qed
  ultimately have "i = 1" by simp
  with i(2) have a: "fst (findFileWithExtensions fsTsAndVue ''/src/util'' defaultExtensions)
       = Some ''/src/util.ts''" by (simp add: defaultExtensions_def)
  have "\<forall>ext \<in> set defaultExtensions. \<not> fsEmpty (''/src/util'' @ ext)"
    by (simp add: fsEmpty_def)
  with first_suffix_in_list_order[of fsEmpty "''/src/util''"]
  have "fst (findFileWithExtensions fsEmpty ''/src/util'' defaultExtensions) = None" by blast
  with a show ?thesis by simp
qed

subsection \<open>Specifiers outside the alias\<close>

text \<open>
  Against C6 as worded. With the default options the alias prefix is \<open>@\<close>. The
  specifier \<open>@n8n-base/app/Header\<close> does not start with \<open>@/\<close>, and the base file
  \<open>app/Header.vue\<close> exists: \<open>resolveId\<close> returns that file, not null.
\<close>

theorem pass_through_counterexample:
  "\<not> startsWith ''@n8n-base/app/Header'' (aliasPrefixOf defaultOptions @ ''/'')
   \<and> fst (resolveId joinPath fsBaseOnly defaultOptions newStats ''@n8n-base/app/Header'')
       = Some ''/repo/n8n/packages/frontend/editor-ui/src/app/Header.vue''"
  by (simp add: resolveId_def resolveIdBase_def layout_simps startsWith_def Let_def
        defaultExtensions_def fsBaseOnly_def truthyPath_def)

text \<open>
  C6, as the code has it. For every configuration and every specifier that does not
  start with \<open>aliasPrefix + "/"\<close>: \<open>resolveAliasedPath\<close> returns null; \<open>resolveId\<close>
  makes no override lookup, and when the specifier does not start with \<open>@n8n-base/\<close>
  either it returns null, having probed nothing and only counted the call; when the
  specifier does start with \<open>@n8n-base/\<close> it makes the lookup under the base root,
  and only that, and returns what it finds, a path or null.
\<close>

theorem pass_through_outside_alias:
  assumes "\<not> startsWith source (aliasPrefixOf options @ ''/'')"
  shows "resolveAliasedPath resolve source (aliasPrefixOf options) targetDir = None
     \<and> (\<not> startsWith source ''@n8n-base/'' \<longrightarrow>
          resolveId resolve existsSync options stats source
            = (None, stats\<lparr>checked := checked stats + 1\<rparr>, []))
     \<and> (startsWith source ''@n8n-base/'' \<longrightarrow>
          resolveId resolve existsSync options stats source
            = (case findFileWithExtensions existsSync
                      (resolve [n8nEditorUiSrc resolve options, drop (length ''@n8n-base/'') source])
                      defaultExtensions of
                 (found, probes) \<Rightarrow>
                   (truthyPath found, stats\<lparr>checked := checked stats + 1\<rparr>, probes)))"
  using assms
  by (auto simp: resolveAliasedPath_def resolveId_def resolveIdBase_def Let_def
           split: prod.splits option.splits)

text \<open>
  The specifier \<open>vue-router\<close> passes through; \<open>@n8n-base/app/Header\<close> goes to the
  lookup under the base root.
\<close>

theorem pass_through_outside_alias_witness:
  "\<not> startsWith ''vue-router'' (aliasPrefixOf defaultOptions @ ''/'')
   \<and> resolveAliasedPath joinPath ''vue-router'' (aliasPrefixOf defaultOptions) ''/repo/n8n'' = None
   \<and> resolveId joinPath fsBaseOnly defaultOptions newStats ''vue-router''
       = (None, newStats\<lparr>checked := checked newStats + 1\<rparr>, [])
   \<and> resolveId joinPath fsBaseOnly defaultOptions newStats ''@n8n-base/app/Header''
       = (case findFileWithExtensions fsBaseOnly
                 (joinPath [n8nEditorUiSrc joinPath defaultOptions,
                            drop (length ''@n8n-base/'') ''@n8n-base/app/Header''])
                 defaultExtensions of
            (found, probes) \<Rightarrow>
              (truthyPath found, newStats\<lparr>checked := checked newStats + 1\<rparr>, probes))"
proof -
  have h1: "\<not> startsWith ''vue-router'' (aliasPrefixOf defaultOptions @ ''/'')"
    by (simp add: layout_simps startsWith_def)
  have h2: "\<not> startsWith ''@n8n-base/app/Header'' (aliasPrefixOf defaultOptions @ ''/'')"
    by (simp add: layout_simps startsWith_def)
  have n1: "\<not> startsWith ''vue-router'' ''@n8n-base/''" by (simp add: startsWith_def)
  have n2: "startsWith ''@n8n-base/app/Header'' ''@n8n-base/''" by (simp add: startsWith_def)
  from pass_through_outside_alias[OF h1, of joinPath "''/repo/n8n''" fsBaseOnly newStats]
       pass_through_outside_alias[OF h2, of joinPath "''/repo/n8n''" fsBaseOnly newStats]
       h1 n1 n2
  show ?thesis by blast
qed

subsection \<open>The always-base alias\<close>

text \<open>
  C8 does not hold of the code. The options set the alias prefix to \<open>@n8n-base/app\<close>, a
  prefix other than \<open>@n8n-base\<close>, and the extensions directory holds
  \<open>frontend/@n8n-base/app/Header.vue\<close>. The specifier \<open>@n8n-base/app/Header.vue\<close>
  starts with \<open>@n8n-base/\<close>. It starts with the alias prefix and a slash too, and the
  block of \<open>resolveId\<close> for the alias prefix comes first: the one path probed is that
  file under the extensions directory, which is recorded as an override and returned.
  No path under the n8n editor sources is probed.
\<close>

theorem base_alias_returns_override:
  "aliasPrefixOf subAliasOptions = ''@n8n-base/app''
   \<and> startsWith ''@n8n-base/app/Header.vue'' ''@n8n-base/''
   \<and> resolveId joinPath fsOverrideOnly subAliasOptions newStats ''@n8n-base/app/Header.vue''
       = (Some ''/repo/Macaques/extensions/frontend/@n8n-base/app/Header.vue'',
          newStats\<lparr>overrides :=
            [''@n8n-base/app/Header.vue'' \<mapsto>
               ''/repo/Macaques/extensions/frontend/@n8n-base/app/Header.vue''],
            checked := 1\<rparr>,
          [ExistsSync ''/repo/Macaques/extensions/frontend/@n8n-base/app/Header.vue''])
   \<and> isPathWithin joinPath ''/repo/Macaques/extensions/frontend/@n8n-base/app/Header.vue''
         (frontendExtensionsDir joinPath subAliasOptions)
   \<and> \<not> isPathWithin joinPath ''/repo/Macaques/extensions/frontend/@n8n-base/app/Header.vue''
         (n8nEditorUiSrc joinPath subAliasOptions)"
  by (simp add: resolveId_def resolveIdBase_def layout_simps startsWith_def Let_def
        defaultExtensions_def fsOverrideOnly_def truthyPath_def newStats_def isPathWithin_def)

text \<open>
  Where the two prefixes do not meet, the second block is the one that runs. For every
  specifier that starts with \<open>@n8n-base/\<close> and not with \<open>aliasPrefix + "/"\<close>,
  \<open>resolveId\<close> makes the probes of the lookup of \<open>resolve(n8nEditorUiSrc, rest)\<close> with
  the suffix list, and no other, and returns what that lookup finds; the option
  \<open>extensionsDir\<close> is not read. Whether a candidate lies under the editor sources is
  up to \<open>resolve\<close> and \<open>rest\<close>: \<open>isPathWithin\<close> is not called.
\<close>

lemma base_alias_without_collision:
  assumes "startsWith source ''@n8n-base/''"
      and "\<not> startsWith source (aliasPrefixOf options @ ''/'')"
  shows "(case findFileWithExtensions existsSync
                (resolve [n8nEditorUiSrc resolve options, drop (length ''@n8n-base/'') source])
                defaultExtensions of
            (found, probes) \<Rightarrow>
              resolveId resolve existsSync options stats source
                = (truthyPath found, stats\<lparr>checked := checked stats + 1\<rparr>, probes)
              \<and> set probes \<subseteq>
                  (\<lambda>ext. ExistsSync
                     (resolve [n8nEditorUiSrc resolve options, drop (length ''@n8n-base/'') source] @ ext))
                   ` set defaultExtensions)
     \<and> resolveId resolve existsSync (options\<lparr>extensionsDir := dir\<rparr>) stats source
         = resolveId resolve existsSync options stats source"
proof -
  let ?b = "resolve [n8nEditorUiSrc resolve options, drop (length ''@n8n-base/'') source]"
  obtain found probes where f: "findFileWithExtensions existsSync ?b defaultExtensions = (found, probes)"
    by (cases "findFileWithExtensions existsSync ?b defaultExtensions") auto
  have "set (snd (findFileWithExtensions existsSync ?b defaultExtensions))
          \<subseteq> (\<lambda>ext. ExistsSync (?b @ ext)) ` set defaultExtensions"
    by (rule findFile_probes)
  with f have sub: "set probes \<subseteq> (\<lambda>ext. ExistsSync (?b @ ext)) ` set defaultExtensions" by simp
  have r: "resolveId resolve existsSync options stats source
                = (truthyPath found, stats\<lparr>checked := checked stats + 1\<rparr>, probes)"
    using assms f
    by (auto simp: resolveId_def resolveIdBase_def Let_def split: prod.splits option.splits)
  have "resolveId resolve existsSync (options\<lparr>extensionsDir := dir\<rparr>) stats source
         = resolveId resolve existsSync options stats source"
    using assms
    by (simp add: resolveId_def resolveIdBase_def Let_def aliasPrefixOf_def n8nEditorUiSrc_def)
  with f r sub show ?thesis by simp
qed

text \<open>
  With the default options, \<open>@n8n-base/app/Header\<close> probes the six candidates under
  the editor sources and returns the \<open>.vue\<close> file.
\<close>

lemma base_alias_default_prefix:
  "startsWith ''@n8n-base/app/Header'' ''@n8n-base/''
   \<and> \<not> startsWith ''@n8n-base/app/Header'' (aliasPrefixOf defaultOptions @ ''/'')
   \<and> resolveId joinPath fsBaseOnly defaultOptions newStats ''@n8n-base/app/Header''
       = (Some ''/repo/n8n/packages/frontend/editor-ui/src/app/Header.vue'',
          newStats\<lparr>checked := checked newStats + 1\<rparr>,
          [ExistsSync ''/repo/n8n/packages/frontend/editor-ui/src/app/Header'',
           ExistsSync ''/repo/n8n/packages/frontend/editor-ui/src/app/Header.ts'',
           ExistsSync ''/repo/n8n/packages/frontend/editor-ui/src/app/Header.tsx'',
           ExistsSync ''/repo/n8n/packages/frontend/editor-ui/src/app/Header.js'',
           ExistsSync ''/repo/n8n/packages/frontend/editor-ui/src/app/Header.jsx'',
           ExistsSync ''/repo/n8n/packages/frontend/editor-ui/src/app/Header.vue''])
   \<and> resolveId joinPath fsBaseOnly (defaultOptions\<lparr>extensionsDir := ''/elsewhere''\<rparr>) newStats
         ''@n8n-base/app/Header''
       = resolveId joinPath fsBaseOnly defaultOptions newStats ''@n8n-base/app/Header''"
proof -
  have h1: "startsWith ''@n8n-base/app/Header'' ''@n8n-base/''" by (simp add: startsWith_def)
  have h2: "\<not> startsWith ''@n8n-base/app/Header'' (aliasPrefixOf defaultOptions @ ''/'')"
    by (simp add: layout_simps startsWith_def)
  have probe: "findFileWithExtensions fsBaseOnly
                 (joinPath [n8nEditorUiSrc joinPath defaultOptions,
                            drop (length ''@n8n-base/'') ''@n8n-base/app/Header''])
                 defaultExtensions
      = (Some ''/repo/n8n/packages/frontend/editor-ui/src/app/Header.vue'',
          [ExistsSync ''/repo/n8n/packages/frontend/editor-ui/src/app/Header'',
           ExistsSync ''/repo/n8n/packages/frontend/editor-ui/src/app/Header.ts'',
           ExistsSync ''/repo/n8n/packages/frontend/editor-ui/src/app/Header.tsx'',
           ExistsSync ''/repo/n8n/packages/frontend/editor-ui/src/app/Header.js'',
           ExistsSync ''/repo/n8n/packages/frontend/editor-ui/src/app/Header.jsx'',
           ExistsSync ''/repo/n8n/packages/frontend/editor-ui/src/app/Header.vue''])"
    by (simp add: layout_simps defaultExtensions_def fsBaseOnly_def Let_def)
  note t = base_alias_without_collision[where resolve = joinPath and existsSync = fsBaseOnly
         and stats = newStats and dir = "''/elsewhere''", OF h1 h2]
  from t[unfolded probe] show ?thesis using h1 h2 by (simp add: truthyPath_def)
qed

text \<open>
  C10 does not hold of the code. The same options, extensions directory and specifier:
  no candidate for it exists under the n8n editor sources with any suffix of the list,
  and \<open>resolveId\<close> returns the file under the extensions directory, not null.
\<close>

theorem base_alias_miss_returns_override:
  "startsWith ''@n8n-base/app/Header.vue'' ''@n8n-base/''
   \<and> fst (findFileWithExtensions fsOverrideOnly
            (joinPath [n8nEditorUiSrc joinPath subAliasOptions,
                       drop (length ''@n8n-base/'') ''@n8n-base/app/Header.vue''])
            defaultExtensions) = None
   \<and> fst (resolveId joinPath fsOverrideOnly subAliasOptions newStats ''@n8n-base/app/Header.vue'')
       = Some ''/repo/Macaques/extensions/frontend/@n8n-base/app/Header.vue''"
  by (simp add: resolveId_def resolveIdBase_def layout_simps startsWith_def Let_def
        defaultExtensions_def fsOverrideOnly_def truthyPath_def)

text \<open>
  For every specifier that starts with \<open>@n8n-base/\<close> and has no candidate with any
  suffix of the list for \<open>resolve(n8nEditorUiSrc, rest)\<close>, \<open>resolveId\<close> returns, and its
  result is null when the specifier does not start with \<open>aliasPrefix + "/"\<close>; when it
  does, the result is what the lookup of the first block finds, a file or null.
\<close>

lemma base_alias_miss_either_block:
  assumes "startsWith source ''@n8n-base/''"
      and "\<forall>ext \<in> set defaultExtensions.
             \<not> existsSync (resolve [n8nEditorUiSrc resolve options,
                                      drop (length ''@n8n-base/'') source] @ ext)"
  shows "fst (resolveId resolve existsSync options stats source) =
           (if startsWith source (aliasPrefixOf options @ ''/'') then
              truthyPath (fst (findFileWithExtensions existsSync
                (resolve [frontendExtensionsDir resolve options, aliasPrefixOf options,
                          drop (length (aliasPrefixOf options) + 1) source])
                defaultExtensions))
            else None)"
proof -
  from findFile_none[OF assms(2)]
  have "fst (findFileWithExtensions existsSync
               (resolve [n8nEditorUiSrc resolve options, drop (length ''@n8n-base/'') source])
               defaultExtensions) = None" .
  with assms(1) show ?thesis
    by (auto simp: resolveId_def resolveIdBase_def Let_def truthyPath_def
             split: prod.splits option.splits if_splits)
qed

text \<open>With the default options and no \<open>app/Footer\<close> under the editor sources: null.\<close>

lemma base_alias_miss_default_prefix:
  "startsWith ''@n8n-base/app/Footer'' ''@n8n-base/''
   \<and> fst (findFileWithExtensions fsBaseOnly
            (joinPath [n8nEditorUiSrc joinPath defaultOptions,
                       drop (length ''@n8n-base/'') ''@n8n-base/app/Footer''])
            defaultExtensions) = None
   \<and> fst (resolveId joinPath fsBaseOnly defaultOptions newStats ''@n8n-base/app/Footer'') = None"
proof -
  have h1: "startsWith ''@n8n-base/app/Footer'' ''@n8n-base/''" by (simp add: startsWith_def)
  have h2: "\<forall>ext \<in> set defaultExtensions.
             \<not> fsBaseOnly (joinPath [n8nEditorUiSrc joinPath defaultOptions,
                                      drop (length ''@n8n-base/'') ''@n8n-base/app/Footer''] @ ext)"
    by (simp add: layout_simps defaultExtensions_def fsBaseOnly_def)
  have h3: "\<not> startsWith ''@n8n-base/app/Footer'' (aliasPrefixOf defaultOptions @ ''/'')"
    by (simp add: layout_simps startsWith_def)
  from base_alias_miss_either_block[where resolve = joinPath and existsSync = fsBaseOnly
         and options = defaultOptions and stats = newStats, OF h1 h2] h3
  have "fst (resolveId joinPath fsBaseOnly defaultOptions newStats ''@n8n-base/app/Footer'') = None"
    by simp
  moreover have "fst (findFileWithExtensions fsBaseOnly
            (joinPath [n8nEditorUiSrc joinPath defaultOptions,
                       drop (length ''@n8n-base/'') ''@n8n-base/app/Footer''])
            defaultExtensions) = None"
    by (simp add: layout_simps defaultExtensions_def fsBaseOnly_def Let_def)
  ultimately show ?thesis using h1 by simp
qed

subsection \<open>A missing override file\<close>

text \<open>
  C9. For a manifest entry, of type \<open>replace\<close> or any other, whose override path
  \<open>resolve(extensionsDir, path)\<close> exists with no suffix of the list,
  \<open>validateFrontendPatch\<close> returns the result with \<open>valid\<close> false, \<open>status\<close> missing and
  \<open>basePath\<close> the override path under the extensions directory; the only probes
  made are those of the override lookup, none under the n8n sources.
\<close>

theorem missing_override_reported:
  assumes "\<forall>ext \<in> set defaultExtensions. \<not> existsSync (resolve [dir, path p] @ ext)"
  shows "validateFrontendPatch resolve existsSync p dir n8nSrc =
           (\<lparr>patch = p, valid = False, status = Missing,
             message = Some ''Override file not found'',
             basePath = Some (resolve [dir, path p])\<rparr>,
            snd (findFileWithExtensions existsSync (resolve [dir, path p]) defaultExtensions))"
proof -
  from findFile_none[OF assms]
  have "fst (findFileWithExtensions existsSync (resolve [dir, path p]) defaultExtensions) = None" .
  then show ?thesis
    by (auto simp: validateFrontendPatch_def Let_def truthyPath_def split: prod.splits)
qed

text \<open>The header patch, of type \<open>replace\<close>, on an empty file system.\<close>

theorem missing_override_reported_witness:
  "PatchEntry.type headerPatch = Replace
   \<and> fst (findFileWithExtensions fsEmpty
            (joinPath [''/repo/Macaques/extensions/frontend'', path headerPatch]) defaultExtensions) = None
   \<and> (case fst (validateFrontendPatch joinPath fsEmpty headerPatch
                  ''/repo/Macaques/extensions/frontend''
                  ''/repo/n8n/packages/frontend/editor-ui/src'') of
         r \<Rightarrow> valid r = False \<and> status r = Missing
              \<and> basePath r = Some ''/repo/Macaques/extensions/frontend/@/app/Header.vue'')"
proof -
  have h: "\<forall>ext \<in> set defaultExtensions.
             \<not> fsEmpty (joinPath [''/repo/Macaques/extensions/frontend'', path headerPatch] @ ext)"
    by (simp add: fsEmpty_def)
  from missing_override_reported[where resolve = joinPath and existsSync = fsEmpty
         and n8nSrc = "''/repo/n8n/packages/frontend/editor-ui/src''", OF h]
  have "case fst (validateFrontendPatch joinPath fsEmpty headerPatch
                  ''/repo/Macaques/extensions/frontend''
                  ''/repo/n8n/packages/frontend/editor-ui/src'') of
         r \<Rightarrow> valid r = False \<and> status r = Missing
              \<and> basePath r = Some ''/repo/Macaques/extensions/frontend/@/app/Header.vue''"
    by (simp add: headerPatch_def)
  moreover have "fst (findFileWithExtensions fsEmpty
            (joinPath [''/repo/Macaques/extensions/frontend'', path headerPatch]) defaultExtensions) = None"
    by (simp add: defaultExtensions_def fsEmpty_def Let_def)
  ultimately show ?thesis by (simp add: headerPatch_def)
qed

end
